theory Spec2Isabelle
  imports Complex_Main "HOL-Library.Word"
begin

unbundle bit_operations_syntax

section \<open>Depth-map video maker: a model of dmap\_maker.py\<close>

text \<open>
  The script turns every video of a folder into a grayscale depth-map video. Its own code
  is orchestration: it lists the folder, opens each video, pushes every frame through a
  preprocessing pipeline, a neural network and three image operations, and writes the
  result. The model below follows the script function by function and keeps its names.

  What the script calls but does not define is modelled as follows.
  \<^item> NumPy arrays are records of a shape and the elements in row-major order.
  \<^item> Floating-point numbers are idealised as rationals (exact arithmetic, no rounding,
    no overflow). The two places where IEEE arithmetic leaves the rationals, a division
    by zero and the conversion of a non-number to an 8-bit integer, are written out.
  \<^item> The network, the preprocessing pipeline, and the pixel contents computed by OpenCV's
    Gaussian blur and Lanczos resize are parameters: nothing is assumed about them.
  \<^item> Exceptions are values: every function that can raise returns \<open>error + 'a\<close>.
  \<^item> The file system, the key presses and the handles OpenCV gives out form a record
    that is passed along.
\<close>

subsection \<open>Arrays and numbers\<close>

record 'a ndarray =
  shape0 :: nat
  shape1 :: nat
  elems :: "'a list"

type_synonym u8 = "8 word"
type_synonym bgr = "u8 \<times> u8 \<times> u8"
type_synonym frame = "bgr ndarray"
type_synonym rgb_image = "(rat \<times> rat \<times> rat) ndarray"
type_synonym depth = "rat ndarray"
type_synonym gray = "u8 ndarray"

datatype error =
    IOError string
  | OSError string
  | ValueError
  | CvError
  | RuntimeError string

text \<open>The result of a floating-point operation: a number, an infinity or not-a-number.\<close>

datatype npfloat = Fin rat | PosInf | NegInf | NaN

text \<open>Python's \<open>int(x)\<close> of a float: truncation towards zero.\<close>

definition py_int :: "rat \<Rightarrow> int" where
  "py_int x = (if 0 \<le> x then \<lfloor>x\<rfloor> else \<lceil>x\<rceil>)"

text \<open>
  NumPy's \<open>min()\<close> and \<open>max()\<close> over all elements; on an array without elements they
  raise ValueError.
\<close>

fun np_min :: "rat list \<Rightarrow> error + rat" where
  "np_min [] = Inl ValueError"
| "np_min (x # xs) = Inr (fold min xs x)"

fun np_max :: "rat list \<Rightarrow> error + rat" where
  "np_max [] = Inl ValueError"
| "np_max (x # xs) = Inr (fold max xs x)"

text \<open>
  NumPy's division of floats does not raise on a zero divisor: it warns and yields
  not-a-number for \<open>0 / 0\<close> and an infinity otherwise.
\<close>

definition np_divide :: "rat \<Rightarrow> rat \<Rightarrow> npfloat" where
  "np_divide a b =
     (if b \<noteq> 0 then Fin (a / b)
      else if a = 0 then NaN
      else if 0 < a then PosInf else NegInf)"

text \<open>Multiplication by a positive constant (here 255.0).\<close>

fun np_times :: "npfloat \<Rightarrow> rat \<Rightarrow> npfloat" where
  "np_times (Fin x) c = Fin (x * c)"
| "np_times PosInf c = PosInf"
| "np_times NegInf c = NegInf"
| "np_times NaN c = NaN"

text \<open>
  \<open>astype(np.uint8)\<close>: a number is truncated towards zero and reduced modulo 256. What
  an infinity or not-a-number becomes is left to the platform by NumPy; it is the
  parameter \<open>invalid\<close>.
\<close>

fun astype_uint8 :: "u8 \<Rightarrow> npfloat \<Rightarrow> u8" where
  "astype_uint8 invalid (Fin x) = word_of_int (py_int x)"
| "astype_uint8 invalid PosInf = invalid"
| "astype_uint8 invalid NegInf = invalid"
| "astype_uint8 invalid NaN = invalid"

subsection \<open>The per-frame operations\<close>

text \<open>
  \<^verbatim>\<open>
  def visualize_depth(depth):
      depth_rescaled = depth.squeeze().cpu().numpy()
      depth_rescaled = (depth_rescaled - depth_rescaled.min())
                       / (depth_rescaled.max() - depth_rescaled.min()) * 255.0
      return depth_rescaled.astype(np.uint8)
  \<close>
  The depth is taken as the two-dimensional array that \<open>squeeze\<close> leaves.
\<close>

definition visualize_depth :: "u8 \<Rightarrow> depth \<Rightarrow> error + gray" where
  "visualize_depth invalid depth =
     (case np_min (elems depth) of
        Inl e \<Rightarrow> Inl e
      | Inr lo \<Rightarrow>
          (case np_max (elems depth) of
             Inl e \<Rightarrow> Inl e
           | Inr hi \<Rightarrow>
               Inr \<lparr>shape0 = shape0 depth, shape1 = shape1 depth,
                    elems = map (\<lambda>v. astype_uint8 invalid
                                   (np_times (np_divide (v - lo) (hi - lo)) 255))
                              (elems depth)\<rparr>))"

text \<open>
  What OpenCV computes is not part of the script. Of \<open>cv2.GaussianBlur\<close> and
  \<open>cv2.resize\<close> the model keeps the shapes (a blur keeps the shape, a resize to
  \<open>dsize = (width, height)\<close> gives an array of shape \<open>(height, width)\<close> and raises on
  an empty source or target); the pixels are whatever the parameters compute.
\<close>

record cvlib =
  invalid_cast :: u8
  gaussian5 :: "gray \<Rightarrow> u8 list"
  lanczos4 :: "gray \<Rightarrow> nat \<Rightarrow> nat \<Rightarrow> u8 list"

definition cv2_GaussianBlur :: "cvlib \<Rightarrow> gray \<Rightarrow> gray" where
  "cv2_GaussianBlur lib src =
     \<lparr>shape0 = shape0 src, shape1 = shape1 src, elems = gaussian5 lib src\<rparr>"

definition cv2_resize :: "cvlib \<Rightarrow> gray \<Rightarrow> nat \<times> nat \<Rightarrow> error + gray" where
  "cv2_resize lib src dsize =
     (case dsize of (width, height) \<Rightarrow>
        if shape0 src = 0 \<or> shape1 src = 0 \<or> width = 0 \<or> height = 0 then Inl CvError
        else Inr \<lparr>shape0 = height, shape1 = width, elems = lanczos4 lib src width height\<rparr>)"

text \<open>\<open>cv2.cvtColor(frame, cv2.COLOR_BGR2RGB) / 255.0\<close>\<close>

definition cvtColor_BGR2RGB_unit :: "frame \<Rightarrow> rgb_image" where
  "cvtColor_BGR2RGB_unit frame =
     \<lparr>shape0 = shape0 frame, shape1 = shape1 frame,
      elems = map (\<lambda>(b, g, r). (of_int (uint r) / 255, of_int (uint g) / 255, of_int (uint b) / 255))
                (elems frame)\<rparr>"

text \<open>
  The preprocessing pipeline and the network are arguments of the script's functions.
  Either may raise. The tensor handed to the network is the image the pipeline returns
  (\<open>from_numpy\<close>, \<open>unsqueeze\<close> and the move to the device change no value).
\<close>

type_synonym tensor = "(rat \<times> rat \<times> rat) ndarray"
type_synonym transform = "rgb_image \<Rightarrow> error + tensor"
type_synonym model = "tensor \<Rightarrow> error + depth"

definition transform_image :: "frame \<Rightarrow> transform \<Rightarrow> error + tensor" where
  "transform_image frame transform = transform (cvtColor_BGR2RGB_unit frame)"

definition estimate_depth :: "tensor \<Rightarrow> model \<Rightarrow> error + depth" where
  "estimate_depth img model = model img"

definition apply_smoothing :: "cvlib \<Rightarrow> gray \<Rightarrow> gray" where
  "apply_smoothing lib depth_grayscale = cv2_GaussianBlur lib depth_grayscale"

definition resize_depth_to_frame :: "cvlib \<Rightarrow> gray \<Rightarrow> frame \<Rightarrow> error + gray" where
  "resize_depth_to_frame lib depth_grayscale frame =
     cv2_resize lib depth_grayscale (shape1 frame, shape0 frame)"

definition process_frame :: "cvlib \<Rightarrow> frame \<Rightarrow> model \<Rightarrow> transform \<Rightarrow> error + gray" where
  "process_frame lib frame model transform =
     (case transform_image frame transform of
        Inl e \<Rightarrow> Inl e
      | Inr img \<Rightarrow>
          (case estimate_depth img model of
             Inl e \<Rightarrow> Inl e
           | Inr depth \<Rightarrow>
               (case visualize_depth (invalid_cast lib) depth of
                  Inl e \<Rightarrow> Inl e
                | Inr depth_grayscale \<Rightarrow>
                    resize_depth_to_frame lib (apply_smoothing lib depth_grayscale) frame)))"

subsection \<open>Video files, captures, writers and the preview window\<close>

text \<open>
  A decodable video file: the frames its stream yields and the properties its container
  reports. Nothing ties the reported frame count to the number of frames.
\<close>

record video =
  v_frames :: "frame list"
  v_frame_count :: rat
  v_fps :: rat
  v_width :: rat
  v_height :: rat

record capture =
  cap_path :: string
  cap_opened :: bool
  cap_stream :: "frame list"
  cap_frame_count :: rat
  cap_fps :: rat
  cap_width :: rat
  cap_height :: rat

record writer =
  vw_path :: string
  vw_fourcc :: string
  vw_fps :: rat
  vw_size :: "int \<times> int"
  vw_is_color :: bool
  vw_frames :: "gray list"
  vw_opened :: bool

text \<open>
  The world the script runs in: what \<open>os.listdir\<close> returns for a folder, the paths
  that hold a decodable video, the results of the coming \<open>cv2.waitKey\<close> polls, the
  preview windows now open, and every capture and writer the script has finished with,
  in its last state. The writers are the output files. Videos are read from the files
  present at the start; the output location is taken to be writable.
\<close>

record world =
  listing :: "string \<Rightarrow> string list option"
  videos :: "string \<Rightarrow> video option"
  keys :: "int list"
  windows :: "string list"
  captures :: "capture list"
  writers :: "writer list"

definition VideoCapture :: "world \<Rightarrow> string \<Rightarrow> capture" where
  "VideoCapture w path =
     (case videos w path of
        None \<Rightarrow>
          \<lparr>cap_path = path, cap_opened = False, cap_stream = [], cap_frame_count = 0,
           cap_fps = 0, cap_width = 0, cap_height = 0\<rparr>
      | Some v \<Rightarrow>
          \<lparr>cap_path = path, cap_opened = True, cap_stream = v_frames v,
           cap_frame_count = v_frame_count v, cap_fps = v_fps v,
           cap_width = v_width v, cap_height = v_height v\<rparr>)"

definition cap_read :: "capture \<Rightarrow> frame option \<times> capture" where
  "cap_read c =
     (if cap_opened c then
        (case cap_stream c of
           [] \<Rightarrow> (None, c)
         | f # fs \<Rightarrow> (Some f, c\<lparr>cap_stream := fs\<rparr>))
      else (None, c))"

definition cap_release :: "capture \<Rightarrow> capture" where
  "cap_release c = c\<lparr>cap_opened := False\<rparr>"

definition VideoWriter :: "string \<Rightarrow> string \<Rightarrow> rat \<Rightarrow> int \<times> int \<Rightarrow> bool \<Rightarrow> writer" where
  "VideoWriter path fourcc fps frame_size is_color =
     \<lparr>vw_path = path, vw_fourcc = fourcc, vw_fps = fps, vw_size = frame_size,
      vw_is_color = is_color, vw_frames = [], vw_opened = True\<rparr>"

definition vw_write :: "writer \<Rightarrow> gray \<Rightarrow> writer" where
  "vw_write out img = (if vw_opened out then out\<lparr>vw_frames := vw_frames out @ [img]\<rparr> else out)"

definition vw_release :: "writer \<Rightarrow> writer" where
  "vw_release out = out\<lparr>vw_opened := False\<rparr>"

definition imshow :: "string \<Rightarrow> gray \<Rightarrow> world \<Rightarrow> world" where
  "imshow name img w =
     (if name \<in> set (windows w) then w else w\<lparr>windows := name # windows w\<rparr>)"

text \<open>\<open>cv2.waitKey\<close>: the code of the key pressed, or -1 when none was.\<close>

definition waitKey :: "world \<Rightarrow> int \<times> world" where
  "waitKey w = (case keys w of [] \<Rightarrow> (- 1, w) | k # ks \<Rightarrow> (k, w\<lparr>keys := ks\<rparr>))"

definition destroyAllWindows :: "world \<Rightarrow> world" where
  "destroyAllWindows w = w\<lparr>windows := []\<rparr>"

subsection \<open>Processing one video\<close>

text \<open>
  \<^verbatim>\<open>
  def initialize_video_writer(cap, output_video_path):
      fourcc = cv2.VideoWriter_fourcc(*'mp4v')
      fps = cap.get(cv2.CAP_PROP_FPS)
      width, height = int(cap.get(cv2.CAP_PROP_FRAME_WIDTH)), int(cap.get(cv2.CAP_PROP_FRAME_HEIGHT))
      return cv2.VideoWriter(output_video_path, fourcc, fps, (width, height), isColor=False)
  \<close>
\<close>

definition initialize_video_writer :: "capture \<Rightarrow> string \<Rightarrow> writer" where
  "initialize_video_writer cap output_video_path =
     (let fourcc = ''mp4v'';
          fps = cap_fps cap;
          width = py_int (cap_width cap);
          height = py_int (cap_height cap)
      in VideoWriter output_video_path fourcc fps (width, height) False)"

text \<open>The objects \<open>process_video\<close> holds while it runs.\<close>

record pv_state =
  pv_cap :: capture
  pv_out :: writer
  pv_world :: world

text \<open>
  \<^verbatim>\<open>
  for _ in tqdm(range(total_frames), ...):
      ret, frame = cap.read()
      if not ret:
          break
      processed_frame = process_frame(frame, model, transform, device)
      out_video.write(processed_frame)
      cv2.imshow('Depth Anywhere', processed_frame)
      if cv2.waitKey(1) & 0xFF == ord('q'):
          break
  \<close>
  The first argument counts the iterations \<open>range\<close> has left. The result is \<open>Inl\<close> when
  an exception left the loop, with the state at that point.
\<close>

fun frame_loop ::
  "cvlib \<Rightarrow> model \<Rightarrow> transform \<Rightarrow> nat \<Rightarrow> pv_state \<Rightarrow> (error + unit) \<times> pv_state" where
  "frame_loop lib model transform 0 s = (Inr (), s)"
| "frame_loop lib model transform (Suc n) s =
     (case cap_read (pv_cap s) of
        (None, cap') \<Rightarrow> (Inr (), s\<lparr>pv_cap := cap'\<rparr>)
      | (Some frame, cap') \<Rightarrow>
          (case process_frame lib frame model transform of
             Inl e \<Rightarrow> (Inl e, s\<lparr>pv_cap := cap'\<rparr>)
           | Inr processed_frame \<Rightarrow>
               (case waitKey (imshow ''Depth Anywhere'' processed_frame (pv_world s)) of
                  (key, w') \<Rightarrow>
                    (let s' = \<lparr>pv_cap = cap', pv_out = vw_write (pv_out s) processed_frame,
                               pv_world = w'\<rparr>
                     in if key AND 0xFF = of_char (CHR ''q'') then (Inr (), s')
                        else frame_loop lib model transform n s'))))"

text \<open>
  \<open>try: body finally: final\<close> runs \<open>final\<close> on the state \<open>body\<close> left, whether it
  returned or raised, and passes the outcome on.
\<close>

definition try_finally ::
  "('s \<Rightarrow> (error + 'a) \<times> 's) \<Rightarrow> ('s \<Rightarrow> 's) \<Rightarrow> 's \<Rightarrow> (error + 'a) \<times> 's" where
  "try_finally body final s = (case body s of (r, s') \<Rightarrow> (r, final s'))"

definition release_all :: "pv_state \<Rightarrow> pv_state" where
  "release_all s =
     \<lparr>pv_cap = cap_release (pv_cap s), pv_out = vw_release (pv_out s),
      pv_world = destroyAllWindows (pv_world s)\<rparr>"

text \<open>
  \<^verbatim>\<open>
  def process_video(video_path, output_video_path, model, transform, device):
      cap = cv2.VideoCapture(video_path)
      if not cap.isOpened():
          raise IOError(f"Cannot open video {video_path}")
      out_video = initialize_video_writer(cap, output_video_path)
      total_frames = int(cap.get(cv2.CAP_PROP_FRAME_COUNT))
      try:
          for ...
      finally:
          cap.release()
          out_video.release()
          cv2.destroyAllWindows()
  \<close>
  On return the capture and the writer are filed in the world as they were left.
\<close>

definition process_video ::
  "cvlib \<Rightarrow> string \<Rightarrow> string \<Rightarrow> model \<Rightarrow> transform \<Rightarrow> world \<Rightarrow> (error + unit) \<times> world" where
  "process_video lib video_path output_video_path model transform w =
     (let cap = VideoCapture w video_path in
      if \<not> cap_opened cap then
        (Inl (IOError (''Cannot open video '' @ video_path)), w\<lparr>captures := captures w @ [cap]\<rparr>)
      else
        (let out_video = initialize_video_writer cap output_video_path;
             total_frames = py_int (cap_frame_count cap)
         in case try_finally (frame_loop lib model transform (nat total_frames)) release_all
                   \<lparr>pv_cap = cap, pv_out = out_video, pv_world = w\<rparr> of
              (r, s) \<Rightarrow>
                (r, (pv_world s)\<lparr>captures := captures (pv_world s) @ [pv_cap s],
                                 writers := writers (pv_world s) @ [pv_out s]\<rparr>)))"

subsection \<open>The batch\<close>

text \<open>\<open>str.lower\<close> on ASCII letters, \<open>str.endswith\<close> with a tuple, \<open>os.path.join\<close>.\<close>

definition char_lower :: "char \<Rightarrow> char" where
  "char_lower c =
     (let n = (of_char c :: nat) in if 65 \<le> n \<and> n \<le> 90 then char_of (n + 32) else c)"

definition str_lower :: "string \<Rightarrow> string" where
  "str_lower s = map char_lower s"

definition endswith :: "string \<Rightarrow> string \<Rightarrow> bool" where
  "endswith s suffix =
     (length suffix \<le> length s \<and> drop (length s - length suffix) s = suffix)"

definition endswith_any :: "string \<Rightarrow> string list \<Rightarrow> bool" where
  "endswith_any s suffixes = list_ex (endswith s) suffixes"

definition os_path_join :: "string \<Rightarrow> string \<Rightarrow> string" where
  "os_path_join a b =
     (if b \<noteq> [] \<and> hd b = CHR ''/'' then b
      else if a = [] \<or> last a = CHR ''/'' then a @ b
      else a @ ''/'' @ b)"

definition os_listdir :: "world \<Rightarrow> string \<Rightarrow> error + string list" where
  "os_listdir w folder =
     (case listing w folder of None \<Rightarrow> Inl (OSError folder) | Some names \<Rightarrow> Inr names)"

definition is_video_file :: "string \<Rightarrow> bool" where
  "is_video_file f = endswith_any (str_lower f) [''.mp4'', ''.avi'', ''.mov'']"

text \<open>
  \<^verbatim>\<open>
  def batch_process_videos(input_folder, output_folder, model, transform, device):
      video_files = [f for f in os.listdir(input_folder)
                     if f.lower().endswith(('.mp4', '.avi', '.mov'))]
      for filename in tqdm(video_files, desc="Processing videos"):
          video_path = os.path.join(input_folder, filename)
          output_video_path = os.path.join(output_folder, f"processed_{filename}")
          process_video(video_path, output_video_path, model, transform, device)
  \<close>
  \<open>video_loop\<close> is the \<open>for\<close> loop: an exception of \<open>process_video\<close> is not caught
  and ends it.
\<close>

fun video_loop ::
  "cvlib \<Rightarrow> string \<Rightarrow> string \<Rightarrow> model \<Rightarrow> transform \<Rightarrow> string list \<Rightarrow> world
     \<Rightarrow> (error + unit) \<times> world" where
  "video_loop lib input_folder output_folder model transform [] w = (Inr (), w)"
| "video_loop lib input_folder output_folder model transform (filename # rest) w =
     (let video_path = os_path_join input_folder filename;
          output_video_path = os_path_join output_folder (''processed_'' @ filename)
      in case process_video lib video_path output_video_path model transform w of
           (Inl e, w') \<Rightarrow> (Inl e, w')
         | (Inr u, w') \<Rightarrow> video_loop lib input_folder output_folder model transform rest w')"

definition batch_process_videos ::
  "cvlib \<Rightarrow> string \<Rightarrow> string \<Rightarrow> model \<Rightarrow> transform \<Rightarrow> world \<Rightarrow> (error + unit) \<times> world" where
  "batch_process_videos lib input_folder output_folder model transform w =
     (case os_listdir w input_folder of
        Inl e \<Rightarrow> (Inl e, w)
      | Inr names \<Rightarrow>
          (let video_files = filter is_video_file names
           in video_loop lib input_folder output_folder model transform video_files w))"

subsection \<open>The preprocessing pipeline\<close>

text \<open>
  \<^verbatim>\<open>
  def get_transform():
      return Compose([
          Resize(width=532, height=532, resize_target=False, keep_aspect_ratio=True,
                 ensure_multiple_of=14, resize_method='lower_bound',
                 image_interpolation_method=cv2.INTER_LANCZOS4),
          NormalizeImage(mean=[0.485, 0.456, 0.406], std=[0.229, 0.224, 0.225]),
          PrepareForNet(),
      ])
  \<close>
  The pipeline as the script builds it: the steps and their arguments.
\<close>

record resize_args =
  rz_width :: nat
  rz_height :: nat
  rz_resize_target :: bool
  rz_keep_aspect_ratio :: bool
  rz_ensure_multiple_of :: nat
  rz_resize_method :: string
  rz_image_interpolation_method :: string

datatype transform_step =
    Resize resize_args
  | NormalizeImage "rat list" "rat list"
  | PrepareForNet

definition get_transform :: "transform_step list" where
  "get_transform =
     [Resize \<lparr>rz_width = 532, rz_height = 532, rz_resize_target = False,
              rz_keep_aspect_ratio = True, rz_ensure_multiple_of = 14,
              rz_resize_method = ''lower_bound'',
              rz_image_interpolation_method = ''INTER_LANCZOS4''\<rparr>,
      NormalizeImage [485 / 1000, 456 / 1000, 406 / 1000] [229 / 1000, 224 / 1000, 225 / 1000],
      PrepareForNet]"

text \<open>The arguments of the resize stage of a pipeline, when it has one.\<close>

fun resize_stage :: "transform_step list \<Rightarrow> resize_args option" where
  "resize_stage [] = None"
| "resize_stage (Resize a # steps) = Some a"
| "resize_stage (step # steps) = resize_stage steps"

text \<open>
  Modelled from the spec: the rounding the class \<open>Resize\<close> of
  \<open>depth_anything.util.transform\<close> snaps with; the class is not among the sources.
  The spec says "snapping to a multiple-of-14 constraint"; the model rounds to the
  nearest integer, a tie to the even one, as NumPy's \<open>round\<close> does.
\<close>

definition round_half_even :: "rat \<Rightarrow> int" where
  "round_half_even x =
     (let f = \<lfloor>x\<rfloor>; d = x - of_int f
      in if d < 1 / 2 then f
         else if 1 / 2 < d then f + 1
         else if even f then f else f + 1)"

text \<open>
  Modelled from the spec: the snapping of a size to a multiple of \<open>ensure_multiple_of\<close>,
  of the class \<open>Resize\<close> that is not among the sources. The size goes to the nearest
  multiple, and to the next multiple above when the nearest is below the lower bound.
\<close>

definition constrain_to_multiple_of :: "nat \<Rightarrow> rat \<Rightarrow> nat \<Rightarrow> int" where
  "constrain_to_multiple_of multiple_of x min_val =
     (let y = round_half_even (x / of_nat multiple_of) * int multiple_of
      in if y < int min_val then \<lceil>x / of_nat multiple_of\<rceil> * int multiple_of else y)"

text \<open>
  Modelled from the spec: the size the resize stage gives a frame of \<open>width\<close> by
  \<open>height\<close> pixels, for the method \<open>lower_bound\<close> with the aspect ratio kept, of the
  class \<open>Resize\<close> that is not among the sources. The spec: "resize so the shorter
  dimension reaches a fixed target, preserving aspect ratio and snapping to a
  multiple-of-14 constraint". Both sides are scaled by the larger of the two ratios
  target / side, then snapped. An empty frame has no ratio: the division raises.
\<close>

definition resize_get_size :: "resize_args \<Rightarrow> nat \<Rightarrow> nat \<Rightarrow> (int \<times> int) option" where
  "resize_get_size a width height =
     (if width = 0 \<or> height = 0 then None
      else
        (let scale_height = (of_nat (rz_height a) :: rat) / of_nat height;
             scale_width = (of_nat (rz_width a) :: rat) / of_nat width;
             scale = (if scale_height < scale_width then scale_width else scale_height);
             new_height = constrain_to_multiple_of (rz_ensure_multiple_of a)
                            (scale * of_nat height) (rz_height a);
             new_width = constrain_to_multiple_of (rz_ensure_multiple_of a)
                           (scale * of_nat width) (rz_width a)
         in Some (new_width, new_height)))"

subsection \<open>A small run\<close>

text \<open>
  Data for running the model: a video of three frames of 2 by 3 pixels whose container
  reports two, a network whose depth map is 1 by 2 whatever the frame, a network that
  raises, and a world with one input folder in which only \<open>in/a.mp4\<close> can be opened.
\<close>

definition ex_frame :: frame where
  "ex_frame = \<lparr>shape0 = 2, shape1 = 3, elems = replicate 6 (0, 0, 0)\<rparr>"

definition ex_video :: video where
  "ex_video = \<lparr>v_frames = [ex_frame, ex_frame, ex_frame], v_frame_count = 2, v_fps = 30,
                v_width = 3, v_height = 2\<rparr>"

definition ex_lib :: cvlib where
  "ex_lib = \<lparr>invalid_cast = 0, gaussian5 = elems,
              lanczos4 = (\<lambda>src width height. replicate (width * height) 0)\<rparr>"

definition ex_transform :: transform where
  "ex_transform = (\<lambda>img. Inr img)"

definition ex_model :: model where
  "ex_model = (\<lambda>img. Inr \<lparr>shape0 = 1, shape1 = 2, elems = [0, 1]\<rparr>)"

definition ex_failing_model :: model where
  "ex_failing_model = (\<lambda>img. Inl (RuntimeError ''out of memory''))"

definition ex_world :: "string list \<Rightarrow> int list \<Rightarrow> world" where
  "ex_world names ks =
     \<lparr>listing = (\<lambda>folder. if folder = ''in'' then Some names else None),
      videos = (\<lambda>path. if path = ''in/a.mp4'' then Some ex_video else None),
      keys = ks, windows = [], captures = [], writers = []\<rparr>"


section \<open>Properties\<close>

subsection \<open>Minimum and maximum\<close>

lemma fold_min_eq_Min: "fold min xs (x::rat) = Min (set (x # xs))"
  by (rule Min.set_eq_fold [symmetric])

lemma fold_max_eq_Max: "fold max xs (x::rat) = Max (set (x # xs))"
  by (rule Max.set_eq_fold [symmetric])

lemma np_min_Inr: "xs \<noteq> [] \<Longrightarrow> np_min xs = Inr (Min (set xs))"
  by (cases xs) (simp_all only: np_min.simps fold_min_eq_Min, simp)

lemma np_max_Inr: "xs \<noteq> [] \<Longrightarrow> np_max xs = Inr (Max (set xs))"
  by (cases xs) (simp_all only: np_max.simps fold_max_eq_Max, simp)

subsection \<open>The frame loop\<close>

text \<open>
  A processed frame has the shape of the frame it was made from: \<open>cv2.resize\<close> is
  called with \<open>(frame.shape[1], frame.shape[0])\<close>, that is width before height, and
  returns height by width.
\<close>

lemma process_frame_shape:
  "process_frame lib frame model transform = Inr g \<Longrightarrow>
     shape0 g = shape0 frame \<and> shape1 g = shape1 frame"
  by (auto simp: process_frame_def resize_depth_to_frame_def cv2_resize_def
      split: sum.splits if_splits)

text \<open>
  What a run of the loop does to the capture, the writer and the world: it reads \<open>k\<close>
  frames, at most as many as \<open>range\<close> had left, and appends the processed frames of the
  first of them to the writer, whatever the outcome.
\<close>

lemma frame_loop_effect:
  "vw_opened (pv_out s) \<Longrightarrow> frame_loop lib model transform n s = (r, s') \<Longrightarrow>
   \<exists>k fs. k \<le> n \<and> k \<le> length (cap_stream (pv_cap s)) \<and> length fs \<le> k \<and>
      pv_cap s' = (pv_cap s)\<lparr>cap_stream := drop k (cap_stream (pv_cap s))\<rparr> \<and>
      pv_out s' = (pv_out s)\<lparr>vw_frames := vw_frames (pv_out s) @ fs\<rparr> \<and>
      list_all2 (\<lambda>f g. process_frame lib f model transform = Inr g)
        (take (length fs) (cap_stream (pv_cap s))) fs \<and>
      listing (pv_world s') = listing (pv_world s) \<and>
      videos (pv_world s') = videos (pv_world s) \<and>
      captures (pv_world s') = captures (pv_world s) \<and>
      writers (pv_world s') = writers (pv_world s)"
proof (induction n arbitrary: s r s')
  case 0
  then show ?case
    by (intro exI [of _ 0] exI [of _ "[]"]) simp
next
  case (Suc n)
  show ?case
  proof (cases "cap_read (pv_cap s)")
    case (Pair ret cap')
    show ?thesis
    proof (cases ret)
      case None
      with Pair Suc.prems have "s' = s\<lparr>pv_cap := cap'\<rparr>" and "cap' = pv_cap s"
        by (auto simp: cap_read_def split: if_splits list.splits)
      then show ?thesis
        by (intro exI [of _ 0] exI [of _ "[]"]) simp
    next
      case (Some frame)
      with Pair obtain rest where st: "cap_stream (pv_cap s) = frame # rest"
        and cap': "cap' = (pv_cap s)\<lparr>cap_stream := rest\<rparr>"
        by (auto simp: cap_read_def split: if_splits list.splits)
      show ?thesis
      proof (cases "process_frame lib frame model transform")
        case (Inl e)
        with Pair Some Suc.prems have "s' = s\<lparr>pv_cap := cap'\<rparr>"
          by simp
        with st cap' show ?thesis
          by (intro exI [of _ 1] exI [of _ "[]"]) simp
      next
        case (Inr g)
        obtain key w1 where wk: "waitKey (imshow ''Depth Anywhere'' g (pv_world s)) = (key, w1)"
          by (cases "waitKey (imshow ''Depth Anywhere'' g (pv_world s))")
        then have w1: "listing w1 = listing (pv_world s)" "videos w1 = videos (pv_world s)"
          "captures w1 = captures (pv_world s)" "writers w1 = writers (pv_world s)"
          by (auto simp: waitKey_def imshow_def split: list.splits if_splits)
        define s1 where "s1 = \<lparr>pv_cap = cap', pv_out = vw_write (pv_out s) g, pv_world = w1\<rparr>"
        have out1: "pv_out s1 = (pv_out s)\<lparr>vw_frames := vw_frames (pv_out s) @ [g]\<rparr>"
          using Suc.prems(1) by (simp add: s1_def vw_write_def)
        show ?thesis
        proof (cases "key AND 0xFF = of_char (CHR ''q'')")
          case True
          with Pair Some Inr wk Suc.prems have "s' = s1"
            by (simp add: s1_def)
          with st cap' out1 w1 Inr show ?thesis
            by (intro exI [of _ 1] exI [of _ "[g]"]) (simp add: s1_def)
        next
          case False
          with Pair Some Inr wk Suc.prems have run: "frame_loop lib model transform n s1 = (r, s')"
            by (simp add: s1_def)
          have "vw_opened (pv_out s1)" using Suc.prems(1) by (simp add: out1)
          from Suc.IH [OF this run] obtain k fs where
            k: "k \<le> n" "k \<le> length (cap_stream (pv_cap s1))" "length fs \<le> k"
            and c: "pv_cap s' = (pv_cap s1)\<lparr>cap_stream := drop k (cap_stream (pv_cap s1))\<rparr>"
            and o: "pv_out s' = (pv_out s1)\<lparr>vw_frames := vw_frames (pv_out s1) @ fs\<rparr>"
            and l: "list_all2 (\<lambda>f g. process_frame lib f model transform = Inr g)
                      (take (length fs) (cap_stream (pv_cap s1))) fs"
            and w: "listing (pv_world s') = listing (pv_world s1)"
              "videos (pv_world s') = videos (pv_world s1)"
              "captures (pv_world s') = captures (pv_world s1)"
              "writers (pv_world s') = writers (pv_world s1)"
            by blast
          have cs1: "pv_cap s1 = (pv_cap s)\<lparr>cap_stream := rest\<rparr>" "pv_world s1 = w1"
            by (simp_all add: s1_def cap')
          show ?thesis
            using k c o l w st Inr w1
            by (intro exI [of _ "Suc k"] exI [of _ "g # fs"]) (simp add: cs1 out1)
        qed
      qed
    qed
  qed
qed

lemma process_video_unopened:
  "videos w p = None \<Longrightarrow>
   process_video lib p outp model transform w =
     (Inl (IOError (''Cannot open video '' @ p)),
      w\<lparr>captures := captures w @
         [\<lparr>cap_path = p, cap_opened = False, cap_stream = [], cap_frame_count = 0,
           cap_fps = 0, cap_width = 0, cap_height = 0\<rparr>]\<rparr>)"
  by (simp add: process_video_def VideoCapture_def)

lemma process_video_unfold:
  assumes v: "videos w p = Some v"
    and loop: "frame_loop lib model transform (nat (py_int (v_frame_count v)))
        \<lparr>pv_cap = \<lparr>cap_path = p, cap_opened = True, cap_stream = v_frames v,
             cap_frame_count = v_frame_count v, cap_fps = v_fps v,
             cap_width = v_width v, cap_height = v_height v\<rparr>,
         pv_out = \<lparr>vw_path = outp, vw_fourcc = ''mp4v'', vw_fps = v_fps v,
             vw_size = (py_int (v_width v), py_int (v_height v)), vw_is_color = False,
             vw_frames = [], vw_opened = True\<rparr>,
         pv_world = w\<rparr> = (r, s1)"
  shows "process_video lib p outp model transform w =
      (r, (pv_world s1)\<lparr>windows := [],
            captures := captures (pv_world s1) @ [(pv_cap s1)\<lparr>cap_opened := False\<rparr>],
            writers := writers (pv_world s1) @ [(pv_out s1)\<lparr>vw_opened := False\<rparr>]\<rparr>)"
proof -
  have cap: "VideoCapture w p = \<lparr>cap_path = p, cap_opened = True, cap_stream = v_frames v,
      cap_frame_count = v_frame_count v, cap_fps = v_fps v,
      cap_width = v_width v, cap_height = v_height v\<rparr>"
    using v by (simp add: VideoCapture_def)
  show ?thesis
    using loop
    by (simp add: process_video_def cap Let_def try_finally_def initialize_video_writer_def
        VideoWriter_def release_all_def cap_release_def vw_release_def destroyAllWindows_def)
qed

lemma process_video_opened:
  assumes v: "videos w p = Some v"
    and run: "process_video lib p outp model transform w = (r, w')"
  shows "\<exists>k fs. k \<le> nat (py_int (v_frame_count v)) \<and> k \<le> length (v_frames v) \<and>
      length fs \<le> k \<and>
      list_all2 (\<lambda>f g. process_frame lib f model transform = Inr g)
        (take (length fs) (v_frames v)) fs \<and>
      captures w' = captures w @
        [\<lparr>cap_path = p, cap_opened = False, cap_stream = drop k (v_frames v),
          cap_frame_count = v_frame_count v, cap_fps = v_fps v,
          cap_width = v_width v, cap_height = v_height v\<rparr>] \<and>
      writers w' = writers w @
        [\<lparr>vw_path = outp, vw_fourcc = ''mp4v'', vw_fps = v_fps v,
          vw_size = (py_int (v_width v), py_int (v_height v)), vw_is_color = False,
          vw_frames = fs, vw_opened = False\<rparr>] \<and>
      windows w' = [] \<and> listing w' = listing w \<and> videos w' = videos w"
proof -
  define s0 where "s0 = \<lparr>pv_cap = \<lparr>cap_path = p, cap_opened = True, cap_stream = v_frames v,
             cap_frame_count = v_frame_count v, cap_fps = v_fps v,
             cap_width = v_width v, cap_height = v_height v\<rparr>,
         pv_out = \<lparr>vw_path = outp, vw_fourcc = ''mp4v'', vw_fps = v_fps v,
             vw_size = (py_int (v_width v), py_int (v_height v)), vw_is_color = False,
             vw_frames = [], vw_opened = True\<rparr>,
         pv_world = w\<rparr>"
  obtain r1 s1 where loop: "frame_loop lib model transform (nat (py_int (v_frame_count v))) s0 = (r1, s1)"
    by (cases "frame_loop lib model transform (nat (py_int (v_frame_count v))) s0")
  from process_video_unfold [OF v loop [unfolded s0_def]] run
  have w': "w' = (pv_world s1)\<lparr>windows := [],
            captures := captures (pv_world s1) @ [(pv_cap s1)\<lparr>cap_opened := False\<rparr>],
            writers := writers (pv_world s1) @ [(pv_out s1)\<lparr>vw_opened := False\<rparr>]\<rparr>"
    by simp
  have "vw_opened (pv_out s0)" by (simp add: s0_def)
  from frame_loop_effect [OF this loop] obtain k fs where
    k: "k \<le> nat (py_int (v_frame_count v))" "k \<le> length (cap_stream (pv_cap s0))" "length fs \<le> k"
    and c: "pv_cap s1 = (pv_cap s0)\<lparr>cap_stream := drop k (cap_stream (pv_cap s0))\<rparr>"
    and o: "pv_out s1 = (pv_out s0)\<lparr>vw_frames := vw_frames (pv_out s0) @ fs\<rparr>"
    and l: "list_all2 (\<lambda>f g. process_frame lib f model transform = Inr g)
              (take (length fs) (cap_stream (pv_cap s0))) fs"
    and w: "listing (pv_world s1) = listing (pv_world s0)"
      "videos (pv_world s1) = videos (pv_world s0)"
      "captures (pv_world s1) = captures (pv_world s0)"
      "writers (pv_world s1) = writers (pv_world s0)"
    by blast
  show ?thesis
    using k l
    by (intro exI [of _ k] exI [of _ fs]) (simp add: w' w c o s0_def)
qed

lemma process_video_cases:
  obtains r w' where "process_video lib p outp model transform w = (r, w')"
  by (cases "process_video lib p outp model transform w")

text \<open>
  A run in which the quit key is the answer to poll \<open>k\<close> (counted from 0) and no poll
  before: it returns after \<open>k + 1\<close> frames.
\<close>

lemma frame_loop_quit:
  "cap_opened (pv_cap s) \<Longrightarrow> vw_opened (pv_out s) \<Longrightarrow> k < n \<Longrightarrow>
   k < length (cap_stream (pv_cap s)) \<Longrightarrow> k < length (keys (pv_world s)) \<Longrightarrow>
   \<forall>i\<le>k. \<exists>g. process_frame lib (cap_stream (pv_cap s) ! i) model transform = Inr g \<Longrightarrow>
   \<forall>i<k. keys (pv_world s) ! i AND 0xFF \<noteq> of_char (CHR ''q'') \<Longrightarrow>
   keys (pv_world s) ! k AND 0xFF = of_char (CHR ''q'') \<Longrightarrow>
   \<exists>s' fs. frame_loop lib model transform n s = (Inr (), s') \<and>
      pv_cap s' = (pv_cap s)\<lparr>cap_stream := drop (Suc k) (cap_stream (pv_cap s))\<rparr> \<and>
      pv_out s' = (pv_out s)\<lparr>vw_frames := vw_frames (pv_out s) @ fs\<rparr> \<and>
      length fs = Suc k \<and>
      keys (pv_world s') = drop (Suc k) (keys (pv_world s)) \<and>
      captures (pv_world s') = captures (pv_world s) \<and>
      writers (pv_world s') = writers (pv_world s)"
proof (induction k arbitrary: n s)
  case 0
  from 0 obtain n' where n: "n = Suc n'" by (cases n) auto
  from 0 obtain f rest where st: "cap_stream (pv_cap s) = f # rest"
    by (cases "cap_stream (pv_cap s)") auto
  from 0 obtain key ks where ks: "keys (pv_world s) = key # ks"
    by (cases "keys (pv_world s)") auto
  from 0 st obtain g where g: "process_frame lib f model transform = Inr g" by auto
  from 0 ks have q: "key AND 0xFF = of_char (CHR ''q'')" by simp
  have rd: "cap_read (pv_cap s) = (Some f, (pv_cap s)\<lparr>cap_stream := rest\<rparr>)"
    using 0(1) st by (simp add: cap_read_def)
  define w1 where "w1 = imshow ''Depth Anywhere'' g (pv_world s)"
  have w1: "keys w1 = key # ks" "captures w1 = captures (pv_world s)"
    "writers w1 = writers (pv_world s)"
    using ks by (simp_all add: w1_def imshow_def)
  have wk: "waitKey w1 = (key, w1\<lparr>keys := ks\<rparr>)"
    by (simp add: waitKey_def w1)
  have run: "frame_loop lib model transform (Suc n') s =
      (Inr (), \<lparr>pv_cap = (pv_cap s)\<lparr>cap_stream := rest\<rparr>,
        pv_out = vw_write (pv_out s) g, pv_world = w1\<lparr>keys := ks\<rparr>\<rparr>)"
    using q by (simp add: rd g w1_def [symmetric] wk)
  show ?case
    unfolding n
    apply (rule exI [of _ "\<lparr>pv_cap = (pv_cap s)\<lparr>cap_stream := rest\<rparr>,
        pv_out = vw_write (pv_out s) g, pv_world = w1\<lparr>keys := ks\<rparr>\<rparr>"])
    apply (rule exI [of _ "[g]"])
    using 0(2) by (simp add: run st ks w1 vw_write_def del: frame_loop.simps)
next
  case (Suc k)
  from Suc.prems obtain n' where n: "n = Suc n'" and kn: "k < n'" by (cases n) auto
  from Suc.prems obtain f rest where st: "cap_stream (pv_cap s) = f # rest"
    by (cases "cap_stream (pv_cap s)") auto
  from Suc.prems obtain key ks where ks: "keys (pv_world s) = key # ks"
    by (cases "keys (pv_world s)") auto
  from Suc.prems(6) st obtain g where g: "process_frame lib f model transform = Inr g"
    by auto
  from Suc.prems(7) ks have q: "key AND 0xFF \<noteq> of_char (CHR ''q'')" by auto
  have rd: "cap_read (pv_cap s) = (Some f, (pv_cap s)\<lparr>cap_stream := rest\<rparr>)"
    using Suc.prems(1) st by (simp add: cap_read_def)
  have wk: "waitKey (imshow ''Depth Anywhere'' g (pv_world s)) =
      (key, (imshow ''Depth Anywhere'' g (pv_world s))\<lparr>keys := ks\<rparr>)"
    using ks by (simp add: waitKey_def imshow_def)
  define s1 where "s1 = \<lparr>pv_cap = (pv_cap s)\<lparr>cap_stream := rest\<rparr>,
        pv_out = vw_write (pv_out s) g,
        pv_world = (imshow ''Depth Anywhere'' g (pv_world s))\<lparr>keys := ks\<rparr>\<rparr>"
  have step: "frame_loop lib model transform n s = frame_loop lib model transform n' s1"
    unfolding n using q by (simp add: rd g wk s1_def)
  have s1: "pv_cap s1 = (pv_cap s)\<lparr>cap_stream := rest\<rparr>"
    "pv_out s1 = (pv_out s)\<lparr>vw_frames := vw_frames (pv_out s) @ [g]\<rparr>"
    "keys (pv_world s1) = ks"
    "captures (pv_world s1) = captures (pv_world s)"
    "writers (pv_world s1) = writers (pv_world s)"
    using Suc.prems(2) by (simp_all add: s1_def vw_write_def imshow_def)
  have a: "cap_opened (pv_cap s1)" "vw_opened (pv_out s1)"
    using Suc.prems(1,2) by (simp_all add: s1)
  have b: "k < length (cap_stream (pv_cap s1))" "k < length (keys (pv_world s1))"
    using Suc.prems(4,5) st ks by (simp_all add: s1)
  have c: "\<forall>i\<le>k. \<exists>g. process_frame lib (cap_stream (pv_cap s1) ! i) model transform = Inr g"
  proof (intro allI impI)
    fix i assume "i \<le> k"
    then have "Suc i \<le> Suc k" by simp
    with Suc.prems(6) have "\<exists>g. process_frame lib (cap_stream (pv_cap s) ! Suc i) model transform = Inr g"
      by blast
    then show "\<exists>g. process_frame lib (cap_stream (pv_cap s1) ! i) model transform = Inr g"
      by (simp add: s1 st)
  qed
  have d: "\<forall>i<k. keys (pv_world s1) ! i AND 0xFF \<noteq> of_char (CHR ''q'')"
  proof (intro allI impI)
    fix i assume "i < k"
    then have "Suc i < Suc k" by simp
    with Suc.prems(7) have "keys (pv_world s) ! Suc i AND 0xFF \<noteq> of_char (CHR ''q'')"
      by blast
    then show "keys (pv_world s1) ! i AND 0xFF \<noteq> of_char (CHR ''q'')"
      by (simp add: s1 ks)
  qed
  have e: "keys (pv_world s1) ! k AND 0xFF = of_char (CHR ''q'')"
    using Suc.prems(8) by (simp add: s1 ks)
  from Suc.IH [OF a kn b c d e] obtain s' fs where
    r: "frame_loop lib model transform n' s1 = (Inr (), s')"
    and r1: "pv_cap s' = (pv_cap s1)\<lparr>cap_stream := drop (Suc k) (cap_stream (pv_cap s1))\<rparr>"
    and r2: "pv_out s' = (pv_out s1)\<lparr>vw_frames := vw_frames (pv_out s1) @ fs\<rparr>"
    and r3: "length fs = Suc k"
    and r4: "keys (pv_world s') = drop (Suc k) (keys (pv_world s1))"
      "captures (pv_world s') = captures (pv_world s1)"
      "writers (pv_world s') = writers (pv_world s1)"
    by blast
  show ?case
    apply (rule exI [of _ s'])
    apply (rule exI [of _ "g # fs"])
    by (simp add: step r r1 r2 r3 r4 s1 st ks del: frame_loop.simps)
qed

lemma ex_video_opens: "videos (ex_world names ks) ''in/a.mp4'' = Some ex_video"
  by (simp add: ex_world_def)

text \<open>
  Claim C1. For a video that opens, with the frames \<open>v_frames v\<close>, the output video that
  \<open>process_video\<close> writes holds at most as many frames as the input, whatever ends the
  run (a failed read, the quit key, the frame count, an exception), and every frame
  written has the height and the width of the input frame it was made from, whatever
  the preprocessing pipeline and the network do to the resolution.
\<close>

theorem process_video_output_frames:
  assumes v: "videos w video_path = Some v"
  shows "\<exists>out. writers (snd (process_video lib video_path output_video_path model transform w))
        = writers w @ [out] \<and>
     length (vw_frames out) \<le> length (v_frames v) \<and>
     (\<forall>i<length (vw_frames out).
        shape0 (vw_frames out ! i) = shape0 (v_frames v ! i) \<and>
        shape1 (vw_frames out ! i) = shape1 (v_frames v ! i))"
proof -
  obtain r w' where run: "process_video lib video_path output_video_path model transform w = (r, w')"
    by (rule process_video_cases)
  from process_video_opened [OF v run] obtain k fs out where
    k: "k \<le> length (v_frames v)" "length fs \<le> k"
    and l: "list_all2 (\<lambda>f g. process_frame lib f model transform = Inr g)
        (take (length fs) (v_frames v)) fs"
    and o: "writers w' = writers w @ [out]" "vw_frames out = fs"
    by force
  have "shape0 (fs ! i) = shape0 (v_frames v ! i) \<and> shape1 (fs ! i) = shape1 (v_frames v ! i)"
    if i: "i < length fs" for i
  proof -
    from list_all2_nthD2 [OF l i] i
    have "process_frame lib (v_frames v ! i) model transform = Inr (fs ! i)"
      by simp
    then show ?thesis by (rule process_frame_shape)
  qed
  with k o show ?thesis
    by (intro exI [of _ out]) (simp add: run)
qed

text \<open>
  The run on the three-frame video: the network's depth map is 1 by 2, the frames
  written are 2 by 3 like the input frames.
\<close>

theorem process_video_output_frames_witness:
  "videos (ex_world [] []) ''in/a.mp4'' = Some ex_video \<and>
   (\<exists>out. writers (snd (process_video ex_lib ''in/a.mp4'' ''out/processed_a.mp4''
                          ex_model ex_transform (ex_world [] []))) = [out] \<and>
      length (vw_frames out) \<le> 3 \<and>
      (\<forall>i<length (vw_frames out).
         shape0 (vw_frames out ! i) = 2 \<and> shape1 (vw_frames out ! i) = 3))"
proof -
  have h: "videos (ex_world [] []) ''in/a.mp4'' = Some ex_video"
    by (rule ex_video_opens)
  have s: "\<forall>f\<in>set (v_frames ex_video). shape0 f = 2 \<and> shape1 f = 3"
    by (simp add: ex_video_def ex_frame_def)
  from process_video_output_frames [OF h, of ex_lib "''out/processed_a.mp4''" ex_model ex_transform]
  obtain out where
    o: "writers (snd (process_video ex_lib ''in/a.mp4'' ''out/processed_a.mp4''
                          ex_model ex_transform (ex_world [] []))) = writers (ex_world [] []) @ [out]"
    and l: "length (vw_frames out) \<le> length (v_frames ex_video)"
    and e: "\<forall>i<length (vw_frames out).
        shape0 (vw_frames out ! i) = shape0 (v_frames ex_video ! i) \<and>
        shape1 (vw_frames out ! i) = shape1 (v_frames ex_video ! i)"
    by blast
  have "shape0 (vw_frames out ! i) = 2 \<and> shape1 (vw_frames out ! i) = 3"
    if "i < length (vw_frames out)" for i
  proof -
    from that l have "v_frames ex_video ! i \<in> set (v_frames ex_video)" by simp
    with s e that show ?thesis by simp
  qed
  moreover have "length (v_frames ex_video) = 3" by (simp add: ex_video_def)
  moreover have "writers (ex_world [] []) = []" by (simp add: ex_world_def)
  ultimately show ?thesis using h o l by auto
qed

text \<open>
  Claim C10. The frame loop of \<open>process_video\<close> makes at most as many iterations as
  the frame count the container reports (read once, before the loop): the capture is
  left with all but the first \<open>k\<close> frames of its stream, with \<open>k\<close> at most that count,
  and at most \<open>k\<close> frames are written. Frames past the reported count stay unread even
  when the stream holds more. The loop is a recursion on the iterations left, so
  \<open>process_video\<close> returns on every input.
\<close>

theorem frame_loop_bounded_by_frame_count:
  assumes v: "videos w video_path = Some v"
  shows "\<exists>k c out. k \<le> nat (py_int (v_frame_count v)) \<and>
     captures (snd (process_video lib video_path output_video_path model transform w))
        = captures w @ [c] \<and>
     cap_stream c = drop k (v_frames v) \<and>
     writers (snd (process_video lib video_path output_video_path model transform w))
        = writers w @ [out] \<and>
     length (vw_frames out) \<le> k"
proof -
  obtain r w' where run: "process_video lib video_path output_video_path model transform w = (r, w')"
    by (rule process_video_cases)
  from process_video_opened [OF v run] obtain k fs c out where
    "k \<le> nat (py_int (v_frame_count v))" "length fs \<le> k"
    "captures w' = captures w @ [c]" "cap_stream c = drop k (v_frames v)"
    "writers w' = writers w @ [out]" "vw_frames out = fs"
    by force
  then show ?thesis
    by (intro exI [of _ k] exI [of _ c] exI [of _ out]) (simp add: run)
qed

text \<open>
  The video holds three frames and reports two: the third is never read.
\<close>

theorem frame_loop_bounded_by_frame_count_witness:
  "videos (ex_world [] []) ''in/a.mp4'' = Some ex_video \<and>
   length (v_frames ex_video) = 3 \<and> nat (py_int (v_frame_count ex_video)) = 2 \<and>
   (\<exists>k c out. k \<le> 2 \<and>
      captures (snd (process_video ex_lib ''in/a.mp4'' ''out/processed_a.mp4''
                          ex_model ex_transform (ex_world [] []))) = [c] \<and>
      cap_stream c = drop k (v_frames ex_video) \<and>
      writers (snd (process_video ex_lib ''in/a.mp4'' ''out/processed_a.mp4''
                          ex_model ex_transform (ex_world [] []))) = [out] \<and>
      length (vw_frames out) \<le> k)"
proof -
  have h: "videos (ex_world [] []) ''in/a.mp4'' = Some ex_video"
    by (rule ex_video_opens)
  have n: "length (v_frames ex_video) = 3" "nat (py_int (v_frame_count ex_video)) = 2"
    by (simp_all add: ex_video_def py_int_def)
  have e: "captures (ex_world [] []) = []" "writers (ex_world [] []) = []"
    by (simp_all add: ex_world_def)
  from frame_loop_bounded_by_frame_count [OF h, of ex_lib "''out/processed_a.mp4''" ex_model ex_transform]
  show ?thesis
    unfolding n e using h n by simp
qed

text \<open>
  Claim C8. However the frame loop of \<open>process_video\<close> is left, by the end of the
  stream or of the frame count, by the quit key (\<open>r = Inr ()\<close>) or by an exception
  raised in the loop (\<open>r = Inl e\<close>), the \<open>finally\<close> block has run: the capture and the
  writer of this video are released and no preview window is open.
\<close>

theorem process_video_releases_resources:
  assumes v: "videos w video_path = Some v"
    and run: "process_video lib video_path output_video_path model transform w = (r, w')"
  shows "windows w' = [] \<and>
     (\<exists>c out. captures w' = captures w @ [c] \<and> cap_path c = video_path \<and> \<not> cap_opened c \<and>
        writers w' = writers w @ [out] \<and> vw_path out = output_video_path \<and> \<not> vw_opened out)"
proof -
  from process_video_opened [OF v run] obtain c out where
    "captures w' = captures w @ [c]" "cap_path c = video_path" "\<not> cap_opened c"
    "writers w' = writers w @ [out]" "vw_path out = output_video_path" "\<not> vw_opened out"
    "windows w' = []"
    by force
  then show ?thesis by blast
qed

text \<open>
  A network that raises on the first frame: the exception reaches the caller, and the
  capture, the writer and the window are released all the same.
\<close>

theorem process_video_releases_resources_witness:
  "videos (ex_world [] []) ''in/a.mp4'' = Some ex_video \<and>
   fst (process_video ex_lib ''in/a.mp4'' ''out/processed_a.mp4''
          ex_failing_model ex_transform (ex_world [] [])) = Inl (RuntimeError ''out of memory'') \<and>
   windows (snd (process_video ex_lib ''in/a.mp4'' ''out/processed_a.mp4''
          ex_failing_model ex_transform (ex_world [] []))) = [] \<and>
   (\<exists>c out.
      captures (snd (process_video ex_lib ''in/a.mp4'' ''out/processed_a.mp4''
          ex_failing_model ex_transform (ex_world [] []))) = [c] \<and>
      cap_path c = ''in/a.mp4'' \<and> \<not> cap_opened c \<and>
      writers (snd (process_video ex_lib ''in/a.mp4'' ''out/processed_a.mp4''
          ex_failing_model ex_transform (ex_world [] []))) = [out] \<and>
      vw_path out = ''out/processed_a.mp4'' \<and> \<not> vw_opened out)"
proof -
  let ?run = "process_video ex_lib ''in/a.mp4'' ''out/processed_a.mp4''
          ex_failing_model ex_transform (ex_world [] [])"
  have h: "videos (ex_world [] []) ''in/a.mp4'' = Some ex_video"
    by (rule ex_video_opens)
  have r: "?run = (fst ?run, snd ?run)" by simp
  have f: "fst ?run = Inl (RuntimeError ''out of memory'')"
    by code_simp
  have e: "captures (ex_world [] []) = []" "writers (ex_world [] []) = []"
    by (simp_all add: ex_world_def)
  from process_video_releases_resources [OF h r]
  show ?thesis
    unfolding e using h f by simp
qed

text \<open>
  Claim C7. When the quit key is pressed during a video (poll \<open>k\<close> is the first whose
  low byte is the code of \<open>q\<close>, and the frames up to then were read and processed),
  \<open>process_video\<close> returns normally: \<open>k + 1\<close> frames are written, the remaining frames
  are never read, the capture, the writer and the window are released, and the batch
  loop goes on with the next file.
\<close>

theorem quit_key_ends_current_video_only:
  assumes v: "videos w (os_path_join input_folder filename) = Some v"
    and k: "k < nat (py_int (v_frame_count v))" "k < length (v_frames v)" "k < length (keys w)"
    and ok: "\<forall>i\<le>k. \<exists>g. process_frame lib (v_frames v ! i) model transform = Inr g"
    and nq: "\<forall>i<k. keys w ! i AND 0xFF \<noteq> of_char (CHR ''q'')"
    and q: "keys w ! k AND 0xFF = of_char (CHR ''q'')"
  shows "\<exists>w' c out.
     process_video lib (os_path_join input_folder filename)
       (os_path_join output_folder (''processed_'' @ filename)) model transform w = (Inr (), w') \<and>
     video_loop lib input_folder output_folder model transform (filename # rest) w =
       video_loop lib input_folder output_folder model transform rest w' \<and>
     captures w' = captures w @ [c] \<and> \<not> cap_opened c \<and>
     cap_stream c = drop (Suc k) (v_frames v) \<and>
     writers w' = writers w @ [out] \<and> \<not> vw_opened out \<and>
     length (vw_frames out) = Suc k \<and>
     windows w' = [] \<and> keys w' = drop (Suc k) (keys w)"
proof -
  let ?p = "os_path_join input_folder filename"
  let ?o = "os_path_join output_folder (''processed_'' @ filename)"
  let ?cap = "\<lparr>cap_path = ?p, cap_opened = True, cap_stream = v_frames v,
             cap_frame_count = v_frame_count v, cap_fps = v_fps v,
             cap_width = v_width v, cap_height = v_height v\<rparr>"
  let ?out = "\<lparr>vw_path = ?o, vw_fourcc = ''mp4v'', vw_fps = v_fps v,
             vw_size = (py_int (v_width v), py_int (v_height v)), vw_is_color = False,
             vw_frames = [], vw_opened = True\<rparr>"
  let ?s0 = "\<lparr>pv_cap = ?cap, pv_out = ?out, pv_world = w\<rparr>"
  have "\<exists>s' fs. frame_loop lib model transform (nat (py_int (v_frame_count v))) ?s0 = (Inr (), s') \<and>
      pv_cap s' = (pv_cap ?s0)\<lparr>cap_stream := drop (Suc k) (cap_stream (pv_cap ?s0))\<rparr> \<and>
      pv_out s' = (pv_out ?s0)\<lparr>vw_frames := vw_frames (pv_out ?s0) @ fs\<rparr> \<and>
      length fs = Suc k \<and>
      keys (pv_world s') = drop (Suc k) (keys (pv_world ?s0)) \<and>
      captures (pv_world s') = captures (pv_world ?s0) \<and>
      writers (pv_world s') = writers (pv_world ?s0)"
    using k ok nq q by (intro frame_loop_quit) simp_all
  then obtain s' fs where
    loop: "frame_loop lib model transform (nat (py_int (v_frame_count v))) ?s0 = (Inr (), s')"
    and c: "pv_cap s' = ?cap\<lparr>cap_stream := drop (Suc k) (v_frames v)\<rparr>"
    and o: "pv_out s' = ?out\<lparr>vw_frames := fs\<rparr>" "length fs = Suc k"
    and w: "keys (pv_world s') = drop (Suc k) (keys w)"
      "captures (pv_world s') = captures w" "writers (pv_world s') = writers w"
    by auto
  let ?w' = "(pv_world s')\<lparr>windows := [],
            captures := captures (pv_world s') @ [(pv_cap s')\<lparr>cap_opened := False\<rparr>],
            writers := writers (pv_world s') @ [(pv_out s')\<lparr>vw_opened := False\<rparr>]\<rparr>"
  from process_video_unfold [OF v loop]
  have pv: "process_video lib ?p ?o model transform w = (Inr (), ?w')" .
  then have vl: "video_loop lib input_folder output_folder model transform (filename # rest) w =
       video_loop lib input_folder output_folder model transform rest ?w'"
    by (simp add: Let_def)
  show ?thesis
    apply (rule exI [of _ ?w'])
    apply (rule exI [of _ "(pv_cap s')\<lparr>cap_opened := False\<rparr>"])
    apply (rule exI [of _ "(pv_out s')\<lparr>vw_opened := False\<rparr>"])
    apply (intro conjI)
             apply (rule pv)
            apply (rule vl)
           apply (simp_all add: c o w)
    done
qed

text \<open>
  No key at the first poll, \<open>q\<close> at the second: two frames are written, one is left
  unread, and the loop goes on with \<open>b.AVI\<close>.
\<close>

theorem quit_key_ends_current_video_only_witness:
  "videos (ex_world [] [- 1, 113]) (os_path_join ''in'' ''a.mp4'') = Some ex_video \<and>
   (1 :: nat) < nat (py_int (v_frame_count ex_video)) \<and> 1 < length (v_frames ex_video) \<and>
   1 < length (keys (ex_world [] [- 1, 113])) \<and>
   keys (ex_world [] [- 1, 113]) ! 0 AND 0xFF \<noteq> of_char (CHR ''q'') \<and>
   keys (ex_world [] [- 1, 113]) ! 1 AND 0xFF = of_char (CHR ''q'') \<and>
   (\<exists>w' c out.
      process_video ex_lib (os_path_join ''in'' ''a.mp4'')
        (os_path_join ''out'' (''processed_'' @ ''a.mp4'')) ex_model ex_transform
        (ex_world [] [- 1, 113]) = (Inr (), w') \<and>
      video_loop ex_lib ''in'' ''out'' ex_model ex_transform (''a.mp4'' # [''b.AVI''])
        (ex_world [] [- 1, 113]) =
        video_loop ex_lib ''in'' ''out'' ex_model ex_transform [''b.AVI''] w' \<and>
      captures w' = [c] \<and> \<not> cap_opened c \<and> cap_stream c = [ex_frame] \<and>
      writers w' = [out] \<and> \<not> vw_opened out \<and> length (vw_frames out) = 2 \<and>
      windows w' = [] \<and> keys w' = [])"
proof -
  let ?w = "ex_world [] [- 1, 113]"
  have p: "os_path_join ''in'' ''a.mp4'' = ''in/a.mp4''"
    by (simp add: os_path_join_def)
  have v: "videos ?w (os_path_join ''in'' ''a.mp4'') = Some ex_video"
    unfolding p by (rule ex_video_opens)
  have k: "(1 :: nat) < nat (py_int (v_frame_count ex_video))" "1 < length (v_frames ex_video)"
    "1 < length (keys ?w)"
    by (simp_all add: ex_video_def ex_world_def py_int_def)
  have "\<exists>g. process_frame ex_lib ex_frame ex_model ex_transform = Inr g"
    by (simp add: process_frame_def transform_image_def ex_transform_def estimate_depth_def
        ex_model_def visualize_depth_def resize_depth_to_frame_def cv2_resize_def
        apply_smoothing_def cv2_GaussianBlur_def ex_frame_def)
  then have ok: "\<forall>i\<le>1. \<exists>g. process_frame ex_lib (v_frames ex_video ! i) ex_model ex_transform = Inr g"
    by (simp add: ex_video_def nth_Cons')
  have nq: "\<forall>i<1. keys ?w ! i AND 0xFF \<noteq> of_char (CHR ''q'')"
    by (simp add: ex_world_def)
  have q: "keys ?w ! 1 AND 0xFF = of_char (CHR ''q'')"
    by (simp add: ex_world_def)
  have e: "captures ?w = []" "writers ?w = []" "drop (Suc 1) (keys ?w) = []"
    "drop (Suc 1) (v_frames ex_video) = [ex_frame]"
    by (simp_all add: ex_world_def ex_video_def)
  from quit_key_ends_current_video_only [OF v k ok nq q, of "''out''" "[''b.AVI'']"]
  have "\<exists>w' c out.
      process_video ex_lib (os_path_join ''in'' ''a.mp4'')
        (os_path_join ''out'' (''processed_'' @ ''a.mp4'')) ex_model ex_transform ?w = (Inr (), w') \<and>
      video_loop ex_lib ''in'' ''out'' ex_model ex_transform (''a.mp4'' # [''b.AVI'']) ?w =
        video_loop ex_lib ''in'' ''out'' ex_model ex_transform [''b.AVI''] w' \<and>
      captures w' = [c] \<and> \<not> cap_opened c \<and> cap_stream c = [ex_frame] \<and>
      writers w' = [out] \<and> \<not> vw_opened out \<and> length (vw_frames out) = 2 \<and>
      windows w' = [] \<and> keys w' = []"
    unfolding e by (simp add: numeral_2_eq_2 del: video_loop.simps)
  moreover have "keys ?w ! 0 AND 0xFF \<noteq> of_char (CHR ''q'')"
    using nq by simp
  ultimately show ?thesis using v k q by (intro conjI)
qed

subsection \<open>The batch\<close>

lemma video_loop_append:
  "video_loop lib input_folder output_folder model transform (pre @ files) w =
     (case video_loop lib input_folder output_folder model transform pre w of
        (Inl e, w') \<Rightarrow> (Inl e, w')
      | (Inr u, w') \<Rightarrow> video_loop lib input_folder output_folder model transform files w')"
  by (induction pre arbitrary: w) (auto simp: Let_def split: prod.splits sum.splits)

text \<open>
  What a run of the batch loop does: it tries the first \<open>n\<close> files, in order, and
  leaves one capture for each and one writer for each that opened.
\<close>

lemma video_loop_effect:
  "video_loop lib input_folder output_folder model transform files w = (r, w') \<Longrightarrow>
   \<exists>n cs ws. n \<le> length files \<and>
     captures w' = captures w @ cs \<and> writers w' = writers w @ ws \<and>
     map cap_path cs = map (os_path_join input_folder) (take n files) \<and>
     list_all2 (\<lambda>F out. \<exists>v. videos w (os_path_join input_folder F) = Some v \<and>
         vw_path out = os_path_join output_folder (''processed_'' @ F) \<and>
         vw_fourcc out = ''mp4v'' \<and> vw_fps out = v_fps v \<and>
         vw_size out = (py_int (v_width v), py_int (v_height v)) \<and>
         \<not> vw_is_color out \<and> \<not> vw_opened out)
       (filter (\<lambda>F. videos w (os_path_join input_folder F) \<noteq> None) (take n files)) ws \<and>
     (r = Inr () \<longrightarrow> n = length files \<and> (\<forall>F\<in>set files. videos w (os_path_join input_folder F) \<noteq> None)) \<and>
     listing w' = listing w \<and> videos w' = videos w"
proof (induction files arbitrary: w r w')
  case Nil
  then show ?case
    by (intro exI [of _ 0] exI [of _ "[]"]) simp
next
  case (Cons F rest)
  let ?p = "os_path_join input_folder F"
  let ?o = "os_path_join output_folder (''processed_'' @ F)"
  show ?case
  proof (cases "videos w ?p")
    case None
    from process_video_unopened [OF None, of lib ?o model transform] Cons.prems
    have r: "r = Inl (IOError (''Cannot open video '' @ ?p))"
      and w': "w' = w\<lparr>captures := captures w @
         [\<lparr>cap_path = ?p, cap_opened = False, cap_stream = [], cap_frame_count = 0,
           cap_fps = 0, cap_width = 0, cap_height = 0\<rparr>]\<rparr>"
      by (simp_all add: Let_def)
    show ?thesis
      by (intro exI [of _ 1] exI [of _ "[\<lparr>cap_path = ?p, cap_opened = False, cap_stream = [],
             cap_frame_count = 0, cap_fps = 0, cap_width = 0, cap_height = 0\<rparr>]"] exI [of _ "[]"])
        (simp add: r w' None)
  next
    case (Some v)
    obtain r1 w1 where pv: "process_video lib ?p ?o model transform w = (r1, w1)"
      by (cases "process_video lib ?p ?o model transform w")
    from process_video_opened [OF Some pv] obtain c out where
      c: "captures w1 = captures w @ [c]" "cap_path c = ?p"
      and o: "writers w1 = writers w @ [out]" "vw_path out = ?o" "vw_fourcc out = ''mp4v''"
        "vw_fps out = v_fps v" "vw_size out = (py_int (v_width v), py_int (v_height v))"
        "\<not> vw_is_color out" "\<not> vw_opened out"
      and f: "listing w1 = listing w" "videos w1 = videos w"
      by force
    show ?thesis
    proof (cases r1)
      case (Inl e)
      with pv Cons.prems have "r = Inl e" "w' = w1" by (simp_all add: Let_def)
      then show ?thesis
        using c o f Some
        by (intro exI [of _ 1] exI [of _ "[c]"] exI [of _ "[out]"]) simp
    next
      case (Inr u)
      with pv Cons.prems have run: "video_loop lib input_folder output_folder model transform rest w1 = (r, w')"
        by (simp add: Let_def)
      from Cons.IH [OF run] obtain n cs ws where
        n: "n \<le> length rest"
        and a: "captures w' = captures w1 @ cs" "writers w' = writers w1 @ ws"
          "map cap_path cs = map (os_path_join input_folder) (take n rest)"
        and l: "list_all2 (\<lambda>F out. \<exists>v. videos w1 (os_path_join input_folder F) = Some v \<and>
             vw_path out = os_path_join output_folder (''processed_'' @ F) \<and>
             vw_fourcc out = ''mp4v'' \<and> vw_fps out = v_fps v \<and>
             vw_size out = (py_int (v_width v), py_int (v_height v)) \<and>
             \<not> vw_is_color out \<and> \<not> vw_opened out)
           (filter (\<lambda>F. videos w1 (os_path_join input_folder F) \<noteq> None) (take n rest)) ws"
        and d: "r = Inr () \<longrightarrow> n = length rest \<and> (\<forall>F\<in>set rest. videos w1 (os_path_join input_folder F) \<noteq> None)"
        and g: "listing w' = listing w1" "videos w' = videos w1"
        by blast
      show ?thesis
        using n a l d g c o f Some
        by (intro exI [of _ "Suc n"] exI [of _ "c # cs"] exI [of _ "out # ws"]) simp
    qed
  qed
qed

lemma endswith_iff: "endswith s suffix \<longleftrightarrow> (\<exists>p. s = p @ suffix)"
proof
  assume "endswith s suffix"
  then have "drop (length s - length suffix) s = suffix"
    by (simp add: endswith_def)
  with append_take_drop_id [of "length s - length suffix" s]
  have "s = take (length s - length suffix) s @ suffix"
    by simp
  then show "\<exists>p. s = p @ suffix" ..
next
  assume "\<exists>p. s = p @ suffix"
  then show "endswith s suffix" by (auto simp: endswith_def)
qed

lemma endswith_lower_iff:
  "endswith (str_lower f) suffix \<longleftrightarrow> (\<exists>stem ext. f = stem @ ext \<and> str_lower ext = suffix)"
  by (auto simp: endswith_iff str_lower_def map_eq_append_conv)

lemma is_video_file_iff:
  "is_video_file f \<longleftrightarrow>
     (\<exists>stem ext. f = stem @ ext \<and> str_lower ext \<in> {''.mp4'', ''.avi'', ''.mov''})"
  unfolding is_video_file_def endswith_any_def list_ex_iff
  by (simp only: set_simps bex_simps insert_iff empty_iff endswith_lower_iff) blast

lemma endswith_os_path_join: "endswith b ext \<Longrightarrow> endswith (os_path_join a b) ext"
  by (auto simp: endswith_iff os_path_join_def)

lemma ex_selection:
  "filter is_video_file [''b.AVI'', ''notes.txt'', ''a.mp4''] = [''b.AVI'', ''a.mp4'']"
  "filter is_video_file [''a.mp4'', ''clip.gif'', ''b.AVI''] = [''a.mp4'', ''b.AVI'']"
  by code_simp+

text \<open>
  Claim C4. When a video of the batch cannot be opened, \<open>process_video\<close> raises an
  IOError that \<open>batch_process_videos\<close> does not catch: the batch ends with that error
  in the world the files before it left, plus the capture that failed to open. No file
  after it is opened and no output is written for it.
\<close>

theorem unopenable_video_aborts_batch:
  assumes ls: "listing w input_folder = Some names"
    and split: "filter is_video_file names = before @ filename # rest"
    and pre: "video_loop lib input_folder output_folder model transform before w = (Inr (), w1)"
    and bad: "videos w1 (os_path_join input_folder filename) = None"
  shows "batch_process_videos lib input_folder output_folder model transform w =
     (Inl (IOError (''Cannot open video '' @ os_path_join input_folder filename)),
      w1\<lparr>captures := captures w1 @ [VideoCapture w1 (os_path_join input_folder filename)]\<rparr>)"
proof -
  have "video_loop lib input_folder output_folder model transform (filename # rest) w1 =
      (Inl (IOError (''Cannot open video '' @ os_path_join input_folder filename)),
       w1\<lparr>captures := captures w1 @ [VideoCapture w1 (os_path_join input_folder filename)]\<rparr>)"
    using bad by (simp add: Let_def process_video_def VideoCapture_def)
  then show ?thesis
    by (simp add: batch_process_videos_def os_listdir_def ls split video_loop_append pre
        del: video_loop.simps)
qed

text \<open>
  Two videos, the first of which cannot be opened: the batch ends with the IOError,
  the second video is never opened and nothing is written.
\<close>

theorem unopenable_video_aborts_batch_witness:
  "listing (ex_world [''b.AVI'', ''notes.txt'', ''a.mp4''] []) ''in''
     = Some [''b.AVI'', ''notes.txt'', ''a.mp4''] \<and>
   filter is_video_file [''b.AVI'', ''notes.txt'', ''a.mp4''] = [] @ ''b.AVI'' # [''a.mp4''] \<and>
   videos (ex_world [''b.AVI'', ''notes.txt'', ''a.mp4''] []) ''in/b.AVI'' = None \<and>
   videos (ex_world [''b.AVI'', ''notes.txt'', ''a.mp4''] []) ''in/a.mp4'' = Some ex_video \<and>
   fst (batch_process_videos ex_lib ''in'' ''out'' ex_model ex_transform
          (ex_world [''b.AVI'', ''notes.txt'', ''a.mp4''] []))
     = Inl (IOError ''Cannot open video in/b.AVI'') \<and>
   writers (snd (batch_process_videos ex_lib ''in'' ''out'' ex_model ex_transform
          (ex_world [''b.AVI'', ''notes.txt'', ''a.mp4''] []))) = [] \<and>
   map cap_path (captures (snd (batch_process_videos ex_lib ''in'' ''out'' ex_model ex_transform
          (ex_world [''b.AVI'', ''notes.txt'', ''a.mp4''] [])))) = [''in/b.AVI'']"
proof -
  let ?w = "ex_world [''b.AVI'', ''notes.txt'', ''a.mp4''] []"
  have ls: "listing ?w ''in'' = Some [''b.AVI'', ''notes.txt'', ''a.mp4'']"
    by (simp add: ex_world_def)
  have sp: "filter is_video_file [''b.AVI'', ''notes.txt'', ''a.mp4''] = [] @ ''b.AVI'' # [''a.mp4'']"
    by (simp only: ex_selection append_Nil)
  have pre: "video_loop ex_lib ''in'' ''out'' ex_model ex_transform [] ?w = (Inr (), ?w)"
    by simp
  have p: "os_path_join ''in'' ''b.AVI'' = ''in/b.AVI''"
    by (simp add: os_path_join_def)
  have bad: "videos ?w (os_path_join ''in'' ''b.AVI'') = None"
    by (simp add: p ex_world_def)
  have good: "videos ?w ''in/a.mp4'' = Some ex_video"
    by (rule ex_video_opens)
  from unopenable_video_aborts_batch [OF ls sp pre bad]
  have "batch_process_videos ex_lib ''in'' ''out'' ex_model ex_transform ?w =
     (Inl (IOError (''Cannot open video '' @ ''in/b.AVI'')),
      ?w\<lparr>captures := captures ?w @ [VideoCapture ?w ''in/b.AVI'']\<rparr>)"
    by (simp only: p)
  then show ?thesis
    using ls sp bad good by (simp add: p ex_world_def VideoCapture_def)
qed

text \<open>
  Claim C5. The output files a run of the batch loop writes correspond one to one, in
  order, to the input videos it opened. The output of the video named \<open>F\<close> is
  \<open>processed_F\<close> in the output folder; its name ends as \<open>F\<close> does, so it has the
  extension of the source, from which OpenCV takes the container format; it has the
  frame rate and the frame size the source reports, and it is written as single-channel
  (not colour) frames.
\<close>

theorem one_output_per_processed_video:
  assumes run: "video_loop lib input_folder output_folder model transform video_files w = (r, w')"
  shows "\<exists>n ws. n \<le> length video_files \<and> (r = Inr () \<longrightarrow> n = length video_files) \<and>
     writers w' = writers w @ ws \<and>
     list_all2 (\<lambda>F out.
         vw_path out = os_path_join output_folder (''processed_'' @ F) \<and>
         (\<forall>ext. endswith F ext \<longrightarrow> endswith (vw_path out) ext) \<and>
         (\<exists>v. videos w (os_path_join input_folder F) = Some v \<and> vw_fps out = v_fps v \<and>
              vw_size out = (py_int (v_width v), py_int (v_height v))) \<and>
         \<not> vw_is_color out)
       (filter (\<lambda>F. videos w (os_path_join input_folder F) \<noteq> None) (take n video_files)) ws"
proof -
  from video_loop_effect [OF run] obtain n ws where
    n: "n \<le> length video_files" "r = Inr () \<longrightarrow> n = length video_files"
    and w: "writers w' = writers w @ ws"
    and l: "list_all2 (\<lambda>F out. \<exists>v. videos w (os_path_join input_folder F) = Some v \<and>
         vw_path out = os_path_join output_folder (''processed_'' @ F) \<and>
         vw_fourcc out = ''mp4v'' \<and> vw_fps out = v_fps v \<and>
         vw_size out = (py_int (v_width v), py_int (v_height v)) \<and>
         \<not> vw_is_color out \<and> \<not> vw_opened out)
       (filter (\<lambda>F. videos w (os_path_join input_folder F) \<noteq> None) (take n video_files)) ws"
    by blast
  have "list_all2 (\<lambda>F out.
         vw_path out = os_path_join output_folder (''processed_'' @ F) \<and>
         (\<forall>ext. endswith F ext \<longrightarrow> endswith (vw_path out) ext) \<and>
         (\<exists>v. videos w (os_path_join input_folder F) = Some v \<and> vw_fps out = v_fps v \<and>
              vw_size out = (py_int (v_width v), py_int (v_height v))) \<and>
         \<not> vw_is_color out)
       (filter (\<lambda>F. videos w (os_path_join input_folder F) \<noteq> None) (take n video_files)) ws"
    using l
  proof (rule list_all2_mono)
    fix F out
    assume "\<exists>v. videos w (os_path_join input_folder F) = Some v \<and>
         vw_path out = os_path_join output_folder (''processed_'' @ F) \<and>
         vw_fourcc out = ''mp4v'' \<and> vw_fps out = v_fps v \<and>
         vw_size out = (py_int (v_width v), py_int (v_height v)) \<and>
         \<not> vw_is_color out \<and> \<not> vw_opened out"
    then obtain v where a: "videos w (os_path_join input_folder F) = Some v"
      "vw_path out = os_path_join output_folder (''processed_'' @ F)"
      "vw_fps out = v_fps v" "vw_size out = (py_int (v_width v), py_int (v_height v))"
      "\<not> vw_is_color out"
      by blast
    have "endswith (vw_path out) ext" if "endswith F ext" for ext
    proof -
      from that have "endswith (''processed_'' @ F) ext"
        by (auto simp: endswith_iff)
      then show ?thesis unfolding a(2) by (rule endswith_os_path_join)
    qed
    with a show "vw_path out = os_path_join output_folder (''processed_'' @ F) \<and>
         (\<forall>ext. endswith F ext \<longrightarrow> endswith (vw_path out) ext) \<and>
         (\<exists>v. videos w (os_path_join input_folder F) = Some v \<and> vw_fps out = v_fps v \<and>
              vw_size out = (py_int (v_width v), py_int (v_height v))) \<and>
         \<not> vw_is_color out"
      by blast
  qed
  with n w show ?thesis by blast
qed

text \<open>
  The run on \<open>a.mp4\<close>: one output, \<open>out/processed_a.mp4\<close>, 30 frames per second,
  3 by 2 pixels, not colour.
\<close>

theorem one_output_per_processed_video_witness:
  "(\<exists>n ws. n \<le> length [''a.mp4''] \<and>
      (fst (video_loop ex_lib ''in'' ''out'' ex_model ex_transform [''a.mp4''] (ex_world [] []))
         = Inr () \<longrightarrow> n = length [''a.mp4'']) \<and>
      writers (snd (video_loop ex_lib ''in'' ''out'' ex_model ex_transform [''a.mp4'']
                      (ex_world [] []))) = writers (ex_world [] []) @ ws \<and>
      list_all2 (\<lambda>F out.
          vw_path out = os_path_join ''out'' (''processed_'' @ F) \<and>
          (\<forall>ext. endswith F ext \<longrightarrow> endswith (vw_path out) ext) \<and>
          (\<exists>v. videos (ex_world [] []) (os_path_join ''in'' F) = Some v \<and> vw_fps out = v_fps v \<and>
               vw_size out = (py_int (v_width v), py_int (v_height v))) \<and>
          \<not> vw_is_color out)
        (filter (\<lambda>F. videos (ex_world [] []) (os_path_join ''in'' F) \<noteq> None)
           (take n [''a.mp4''])) ws) \<and>
   map (\<lambda>out. (vw_path out, vw_fps out, vw_size out, vw_is_color out))
     (writers (snd (video_loop ex_lib ''in'' ''out'' ex_model ex_transform [''a.mp4'']
                      (ex_world [] []))))
     = [(''out/processed_a.mp4'', 30, (3, 2), False)]"
proof -
  let ?run = "video_loop ex_lib ''in'' ''out'' ex_model ex_transform [''a.mp4''] (ex_world [] [])"
  have r: "?run = (fst ?run, snd ?run)" by simp
  have e: "map (\<lambda>out. (vw_path out, vw_fps out, vw_size out, vw_is_color out)) (writers (snd ?run))
     = [(''out/processed_a.mp4'', 30, (3, 2), False)]"
    by code_simp
  from one_output_per_processed_video [OF r] e show ?thesis
    by (intro conjI)
qed

text \<open>
  Claim C6. \<open>batch_process_videos\<close> selects the names of the folder's listing that end,
  letter case aside, with \<open>.mp4\<close>, \<open>.avi\<close> or \<open>.mov\<close>. Every capture it opens and
  every output it writes belongs to a selected name; no other file is opened or gets an
  output. When the batch ends without an exception, every selected file has been opened
  and has its output.
\<close>

theorem batch_selects_video_files:
  assumes ls: "listing w input_folder = Some names"
    and run: "batch_process_videos lib input_folder output_folder model transform w = (r, w')"
  shows "(\<forall>f. is_video_file f \<longleftrightarrow>
            (\<exists>stem ext. f = stem @ ext \<and> str_lower ext \<in> {''.mp4'', ''.avi'', ''.mov''})) \<and>
     (\<exists>n cs ws. n \<le> length (filter is_video_file names) \<and>
        captures w' = captures w @ cs \<and>
        map cap_path cs = map (os_path_join input_folder) (take n (filter is_video_file names)) \<and>
        writers w' = writers w @ ws \<and>
        map vw_path ws =
          map (\<lambda>f. os_path_join output_folder (''processed_'' @ f))
            (filter (\<lambda>f. videos w (os_path_join input_folder f) \<noteq> None)
               (take n (filter is_video_file names))) \<and>
        (r = Inr () \<longrightarrow>
           map cap_path cs = map (os_path_join input_folder) (filter is_video_file names) \<and>
           map vw_path ws =
             map (\<lambda>f. os_path_join output_folder (''processed_'' @ f)) (filter is_video_file names)))"
proof -
  let ?vf = "filter is_video_file names"
  let ?op = "\<lambda>f. videos w (os_path_join input_folder f) \<noteq> None"
  from run ls have "video_loop lib input_folder output_folder model transform ?vf w = (r, w')"
    by (simp add: batch_process_videos_def os_listdir_def)
  from video_loop_effect [OF this] obtain n cs ws where
    n: "n \<le> length ?vf"
    and c: "captures w' = captures w @ cs" "map cap_path cs = map (os_path_join input_folder) (take n ?vf)"
    and w: "writers w' = writers w @ ws"
    and l: "list_all2 (\<lambda>F out. \<exists>v. videos w (os_path_join input_folder F) = Some v \<and>
         vw_path out = os_path_join output_folder (''processed_'' @ F) \<and>
         vw_fourcc out = ''mp4v'' \<and> vw_fps out = v_fps v \<and>
         vw_size out = (py_int (v_width v), py_int (v_height v)) \<and>
         \<not> vw_is_color out \<and> \<not> vw_opened out) (filter ?op (take n ?vf)) ws"
    and d: "r = Inr () \<longrightarrow> n = length ?vf \<and> (\<forall>F\<in>set ?vf. ?op F)"
    by blast
  from l have "list_all2 (\<lambda>F out. vw_path out = os_path_join output_folder (''processed_'' @ F))
      (filter ?op (take n ?vf)) ws"
    by (rule list_all2_mono) blast
  then have p: "map vw_path ws =
      map (\<lambda>f. os_path_join output_folder (''processed_'' @ f)) (filter ?op (take n ?vf))"
    by (induction rule: list_all2_induct) simp_all
  have full: "filter ?op (take n ?vf) = ?vf" "take n ?vf = ?vf" if "r = Inr ()"
  proof -
    from d that have e: "n = length ?vf" and a: "\<forall>F\<in>set ?vf. ?op F" by blast+
    from e show "take n ?vf = ?vf" by simp
    with a show "filter ?op (take n ?vf) = ?vf" by (simp only: filter_True)
  qed
  show ?thesis
  proof (intro conjI allI)
    show "is_video_file f \<longleftrightarrow>
        (\<exists>stem ext. f = stem @ ext \<and> str_lower ext \<in> {''.mp4'', ''.avi'', ''.mov''})" for f
      by (rule is_video_file_iff)
    show "\<exists>n cs ws. n \<le> length ?vf \<and> captures w' = captures w @ cs \<and>
        map cap_path cs = map (os_path_join input_folder) (take n ?vf) \<and>
        writers w' = writers w @ ws \<and>
        map vw_path ws = map (\<lambda>f. os_path_join output_folder (''processed_'' @ f))
            (filter ?op (take n ?vf)) \<and>
        (r = Inr () \<longrightarrow>
           map cap_path cs = map (os_path_join input_folder) ?vf \<and>
           map vw_path ws = map (\<lambda>f. os_path_join output_folder (''processed_'' @ f)) ?vf)"
      using n c w p full by (intro exI [of _ n] exI [of _ cs] exI [of _ ws]) simp
  qed
qed

text \<open>
  A folder with \<open>a.mp4\<close>, \<open>clip.gif\<close> and \<open>b.AVI\<close>: the two videos are selected,
  \<open>clip.gif\<close> is not, and nothing bears its name.
\<close>

theorem batch_selects_video_files_witness:
  "listing (ex_world [''a.mp4'', ''clip.gif'', ''b.AVI''] []) ''in''
     = Some [''a.mp4'', ''clip.gif'', ''b.AVI''] \<and>
   filter is_video_file [''a.mp4'', ''clip.gif'', ''b.AVI''] = [''a.mp4'', ''b.AVI''] \<and>
   (\<exists>n cs ws. n \<le> 2 \<and>
      captures (snd (batch_process_videos ex_lib ''in'' ''out'' ex_model ex_transform
          (ex_world [''a.mp4'', ''clip.gif'', ''b.AVI''] []))) = cs \<and>
      map cap_path cs = map (os_path_join ''in'') (take n [''a.mp4'', ''b.AVI'']) \<and>
      writers (snd (batch_process_videos ex_lib ''in'' ''out'' ex_model ex_transform
          (ex_world [''a.mp4'', ''clip.gif'', ''b.AVI''] []))) = ws \<and>
      map vw_path ws =
        map (\<lambda>f. os_path_join ''out'' (''processed_'' @ f))
          (filter (\<lambda>f. videos (ex_world [''a.mp4'', ''clip.gif'', ''b.AVI''] [])
                          (os_path_join ''in'' f) \<noteq> None)
             (take n [''a.mp4'', ''b.AVI''])))"
proof -
  let ?w = "ex_world [''a.mp4'', ''clip.gif'', ''b.AVI''] []"
  let ?run = "batch_process_videos ex_lib ''in'' ''out'' ex_model ex_transform ?w"
  have ls: "listing ?w ''in'' = Some [''a.mp4'', ''clip.gif'', ''b.AVI'']"
    by (simp add: ex_world_def)
  have r: "?run = (fst ?run, snd ?run)" by simp
  have e: "captures ?w = []" "writers ?w = []"
    by (simp_all add: ex_world_def)
  from batch_selects_video_files [OF ls r, unfolded ex_selection e append_Nil]
  obtain n cs ws where
    "n \<le> length [''a.mp4'', ''b.AVI'']" "captures (snd ?run) = cs"
    "map cap_path cs = map (os_path_join ''in'') (take n [''a.mp4'', ''b.AVI''])"
    "writers (snd ?run) = ws"
    "map vw_path ws =
        map (\<lambda>f. os_path_join ''out'' (''processed_'' @ f))
          (filter (\<lambda>f. videos ?w (os_path_join ''in'' f) \<noteq> None)
             (take n [''a.mp4'', ''b.AVI'']))"
    by blast
  then have "\<exists>n cs ws. n \<le> 2 \<and> captures (snd ?run) = cs \<and>
      map cap_path cs = map (os_path_join ''in'') (take n [''a.mp4'', ''b.AVI'']) \<and>
      writers (snd ?run) = ws \<and>
      map vw_path ws =
        map (\<lambda>f. os_path_join ''out'' (''processed_'' @ f))
          (filter (\<lambda>f. videos ?w (os_path_join ''in'' f) \<noteq> None)
             (take n [''a.mp4'', ''b.AVI'']))"
    by (intro exI [of _ n] exI [of _ cs] exI [of _ ws]) simp
  with ls ex_selection(2) show ?thesis by (intro conjI)
qed

subsection \<open>The grayscale normalization\<close>

lemma py_int_nonneg: "0 \<le> x \<Longrightarrow> py_int x = \<lfloor>x\<rfloor>"
  by (simp add: py_int_def)

lemma uint_u8_of_int: "0 \<le> n \<Longrightarrow> n \<le> 255 \<Longrightarrow> uint (word_of_int n :: u8) = n"
  by (simp add: uint_word_of_int)

lemma rescale_bounds:
  fixes v lo hi :: rat
  assumes "lo \<le> v" "v \<le> hi" "lo < hi"
  shows "0 \<le> (v - lo) / (hi - lo) * 255" "(v - lo) / (hi - lo) * 255 \<le> 255"
proof -
  from assms have a: "0 \<le> (v - lo) / (hi - lo)" by simp
  show "0 \<le> (v - lo) / (hi - lo) * 255"
    by (rule mult_nonneg_nonneg [OF a]) simp
  from assms have "(v - lo) / (hi - lo) \<le> 1" by simp
  from mult_right_mono [OF this, of 255] show "(v - lo) / (hi - lo) * 255 \<le> 255"
    by simp
qed

text \<open>
  Claim C9. For a depth array whose maximum is strictly greater than its minimum,
  \<open>visualize_depth\<close> returns an array of the same shape in which the pixel of every
  value \<open>v\<close> is \<open>(v - min) / (max - min) * 255\<close> truncated to an integer. That integer
  lies between 0 and 255, so the conversion to 8 bits changes nothing; the minimum
  becomes 0 and the maximum 255. (Exact arithmetic stands for the floating-point one.)
\<close>

theorem visualize_depth_min_max:
  assumes ne: "elems depth \<noteq> []"
    and lt: "Min (set (elems depth)) < Max (set (elems depth))"
  shows "\<exists>g. visualize_depth invalid depth = Inr g \<and>
     shape0 g = shape0 depth \<and> shape1 g = shape1 depth \<and>
     length (elems g) = length (elems depth) \<and>
     (\<forall>i<length (elems depth).
        uint (elems g ! i) =
          \<lfloor>(elems depth ! i - Min (set (elems depth))) /
             (Max (set (elems depth)) - Min (set (elems depth))) * 255\<rfloor> \<and>
        uint (elems g ! i) \<in> {0..255} \<and>
        (elems depth ! i = Min (set (elems depth)) \<longrightarrow> elems g ! i = 0) \<and>
        (elems depth ! i = Max (set (elems depth)) \<longrightarrow> elems g ! i = 255))"
proof -
  define lo where "lo = Min (set (elems depth))"
  define hi where "hi = Max (set (elems depth))"
  define px where "px = (\<lambda>v. astype_uint8 invalid (np_times (np_divide (v - lo) (hi - lo)) 255))"
  let ?g = "\<lparr>shape0 = shape0 depth, shape1 = shape1 depth, elems = map px (elems depth)\<rparr>"
  have lohi: "lo < hi" using lt by (simp add: lo_def hi_def)
  have vd: "visualize_depth invalid depth = Inr ?g"
    by (simp add: visualize_depth_def np_min_Inr [OF ne] np_max_Inr [OF ne] lo_def hi_def px_def)
  have pix: "uint (px v) = \<lfloor>(v - lo) / (hi - lo) * 255\<rfloor> \<and> uint (px v) \<in> {0..255} \<and>
      (v = lo \<longrightarrow> px v = 0) \<and> (v = hi \<longrightarrow> px v = 255)"
    if "v \<in> set (elems depth)" for v
  proof -
    from that have "lo \<le> v" "v \<le> hi" by (simp_all add: lo_def hi_def)
    from rescale_bounds [OF this lohi]
    have b: "0 \<le> (v - lo) / (hi - lo) * 255" "(v - lo) / (hi - lo) * 255 \<le> 255" .
    have "px v = astype_uint8 invalid (np_times (Fin ((v - lo) / (hi - lo))) 255)"
      using lohi by (simp add: px_def np_divide_def)
    also have "\<dots> = word_of_int (py_int ((v - lo) / (hi - lo) * 255))"
      by (simp only: np_times.simps astype_uint8.simps)
    also have "\<dots> = word_of_int \<lfloor>(v - lo) / (hi - lo) * 255\<rfloor>"
      by (simp only: py_int_nonneg [OF b(1)])
    finally have p: "px v = word_of_int \<lfloor>(v - lo) / (hi - lo) * 255\<rfloor>" .
    from b(1) have r1: "0 \<le> \<lfloor>(v - lo) / (hi - lo) * 255\<rfloor>"
      by (simp only: zero_le_floor)
    from b(2) have r2: "\<lfloor>(v - lo) / (hi - lo) * 255\<rfloor> \<le> 255"
      using floor_mono [OF b(2)] by (simp only: floor_numeral)
    have u: "uint (px v) = \<lfloor>(v - lo) / (hi - lo) * 255\<rfloor>"
      by (simp only: p uint_u8_of_int [OF r1 r2])
    have z: "px v = 0" if "v = lo"
      using p that by simp
    have "(hi - lo) / (hi - lo) * 255 = 255"
      using lohi by simp
    then have f: "px v = 255" if "v = hi"
      using p that by simp
    from u r1 r2 z f show ?thesis by (simp only: atLeastAtMost_iff) blast
  qed
  have sel: "elems ?g ! i = px (elems depth ! i)" if "i < length (elems depth)" for i
    using that by simp
  have all: "\<forall>i<length (elems depth).
        uint (elems ?g ! i) = \<lfloor>(elems depth ! i - lo) / (hi - lo) * 255\<rfloor> \<and>
        uint (elems ?g ! i) \<in> {0..255} \<and>
        (elems depth ! i = lo \<longrightarrow> elems ?g ! i = 0) \<and>
        (elems depth ! i = hi \<longrightarrow> elems ?g ! i = 255)"
  proof (intro allI impI)
    fix i assume i: "i < length (elems depth)"
    then have m: "elems depth ! i \<in> set (elems depth)" by simp
    show "uint (elems ?g ! i) = \<lfloor>(elems depth ! i - lo) / (hi - lo) * 255\<rfloor> \<and>
        uint (elems ?g ! i) \<in> {0..255} \<and>
        (elems depth ! i = lo \<longrightarrow> elems ?g ! i = 0) \<and>
        (elems depth ! i = hi \<longrightarrow> elems ?g ! i = 255)"
      unfolding sel [OF i] by (rule pix [OF m])
  qed
  have shp: "shape0 ?g = shape0 depth" "shape1 ?g = shape1 depth"
    "length (elems ?g) = length (elems depth)"
    by simp_all
  show ?thesis
    unfolding lo_def [symmetric] hi_def [symmetric]
    using vd shp all by blast
qed

text \<open>
  The depth map \<open>[1, 2, 5/2]\<close> becomes \<open>[0, 170, 255]\<close>.
\<close>

theorem visualize_depth_min_max_witness:
  "elems \<lparr>shape0 = 1, shape1 = 3, elems = [1, 2, 5 / 2 :: rat]\<rparr> \<noteq> [] \<and>
   Min (set (elems \<lparr>shape0 = 1, shape1 = 3, elems = [1, 2, 5 / 2 :: rat]\<rparr>))
     < Max (set (elems \<lparr>shape0 = 1, shape1 = 3, elems = [1, 2, 5 / 2 :: rat]\<rparr>)) \<and>
   (\<exists>g. visualize_depth 0 \<lparr>shape0 = 1, shape1 = 3, elems = [1, 2, 5 / 2]\<rparr> = Inr g \<and>
      shape0 g = 1 \<and> shape1 g = 3 \<and>
      elems g ! 0 = 0 \<and> uint (elems g ! 1) = 170 \<and> elems g ! 2 = 255)"
proof -
  let ?d = "\<lparr>shape0 = 1, shape1 = 3, elems = [1, 2, 5 / 2 :: rat]\<rparr>"
  have h1: "elems ?d \<noteq> []" by simp
  have h2: "Min (set (elems ?d)) < Max (set (elems ?d))" by simp
  from visualize_depth_min_max [OF h1 h2, of 0] obtain g where
    g: "visualize_depth 0 ?d = Inr g" "shape0 g = shape0 ?d" "shape1 g = shape1 ?d"
    and a: "\<forall>i<length (elems ?d).
        uint (elems g ! i) =
          \<lfloor>(elems ?d ! i - Min (set (elems ?d))) /
             (Max (set (elems ?d)) - Min (set (elems ?d))) * 255\<rfloor> \<and>
        uint (elems g ! i) \<in> {0..255} \<and>
        (elems ?d ! i = Min (set (elems ?d)) \<longrightarrow> elems g ! i = 0) \<and>
        (elems ?d ! i = Max (set (elems ?d)) \<longrightarrow> elems g ! i = 255)"
    by blast
  from a [rule_format, of 0] have p0: "elems g ! 0 = 0" by simp
  from a [rule_format, of 1] have p1: "uint (elems g ! 1) = 170" by simp
  from a [rule_format, of 2] have p2: "elems g ! 2 = 255" by simp
  from g p0 p1 p2 h1 h2 show ?thesis by simp
qed

text \<open>
  A depth map whose values are all equal has maximum equal to minimum: every division is
  \<open>0 / 0\<close>, nothing is raised, and every pixel is what the platform makes of
  not-a-number. The script has no branch for this case.
\<close>

lemma visualize_depth_constant:
  assumes "elems depth \<noteq> []" and "\<forall>v\<in>set (elems depth). v = c"
  shows "visualize_depth invalid depth =
     Inr \<lparr>shape0 = shape0 depth, shape1 = shape1 depth,
          elems = replicate (length (elems depth)) invalid\<rparr>"
proof -
  from assms have "set (elems depth) = {c}" by (cases "elems depth") auto
  then have m: "Min (set (elems depth)) = c" "Max (set (elems depth)) = c" by simp_all
  have "map (\<lambda>v. astype_uint8 invalid (np_times (np_divide (v - c) (c - c)) 255)) (elems depth)
      = map (\<lambda>v. invalid) (elems depth)"
    using assms(2) by (intro map_cong refl) (simp add: np_divide_def)
  then have "map (\<lambda>v. astype_uint8 invalid (np_times (np_divide (v - c) (c - c)) 255)) (elems depth)
      = replicate (length (elems depth)) invalid"
    by (simp only: map_replicate_const)
  then show ?thesis
    by (simp add: visualize_depth_def np_min_Inr [OF assms(1)] np_max_Inr [OF assms(1)] m)
qed

subsection \<open>The resize stage\<close>

lemma round_half_even_close: "\<bar>of_int (round_half_even x) - x\<bar> \<le> 1 / 2"
proof -
  have "of_int \<lfloor>x\<rfloor> \<le> x" "x < of_int \<lfloor>x\<rfloor> + 1" by linarith+
  then show ?thesis
    unfolding round_half_even_def Let_def by (auto simp: abs_le_iff)
qed

lemma round_half_even_ge: "of_int n \<le> x \<Longrightarrow> n \<le> round_half_even x"
proof -
  assume "of_int n \<le> x"
  then have "n \<le> \<lfloor>x\<rfloor>" by (simp add: le_floor_iff)
  then show ?thesis
    unfolding round_half_even_def Let_def by auto
qed

lemma constrain_to_multiple_of_props:
  assumes m: "0 < m" and q: "min_val = q * m" and x: "of_nat min_val \<le> x"
  shows "int m dvd constrain_to_multiple_of m x min_val"
    and "int min_val \<le> constrain_to_multiple_of m x min_val"
    and "\<bar>of_int (constrain_to_multiple_of m x min_val) - x\<bar> \<le> of_nat m / 2"
    and "x = of_nat min_val \<Longrightarrow> constrain_to_multiple_of m x min_val = int min_val"
proof -
  let ?r = "round_half_even (x / of_nat m)"
  have mpos: "(0::rat) < of_nat m" using m by simp
  have "of_int (int q) \<le> x / of_nat m"
    using x mpos by (simp add: q pos_le_divide_eq)
  then have ge: "int q \<le> ?r" by (rule round_half_even_ge)
  then have "int q * int m \<le> ?r * int m"
    by (rule mult_right_mono) simp
  then have nlt: "\<not> ?r * int m < int min_val" by (simp add: q)
  then have c: "constrain_to_multiple_of m x min_val = ?r * int m"
    by (simp add: constrain_to_multiple_of_def Let_def)
  show "int m dvd constrain_to_multiple_of m x min_val" by (simp add: c)
  show "int min_val \<le> constrain_to_multiple_of m x min_val" using nlt by (simp add: c)
  have "\<bar>of_int ?r - x / of_nat m\<bar> \<le> 1 / 2" by (rule round_half_even_close)
  then have "\<bar>of_int ?r - x / of_nat m\<bar> * of_nat m \<le> 1 / 2 * of_nat m"
    by (rule mult_right_mono) simp
  moreover have "(of_int ?r - x / of_nat m) * of_nat m = of_int ?r * of_nat m - x"
    using mpos by (simp add: left_diff_distrib)
  then have "\<bar>of_int ?r - x / of_nat m\<bar> * of_nat m = \<bar>of_int ?r * of_nat m - x\<bar>"
    using abs_mult [of "of_int ?r - x / of_nat m" "of_nat m :: rat"] by simp
  ultimately show "\<bar>of_int (constrain_to_multiple_of m x min_val) - x\<bar> \<le> of_nat m / 2"
    by (simp add: c)
  show "constrain_to_multiple_of m x min_val = int min_val" if "x = of_nat min_val"
  proof -
    from that mpos have "x / of_nat m = of_int (int q)" by (simp add: q)
    then have "?r = int q" by (simp add: round_half_even_def Let_def)
    then show ?thesis unfolding c by (simp add: q)
  qed
qed

lemma resize_scale:
  fixes width height :: nat
  assumes "0 < width" "0 < height"
  shows "(if (532 :: rat) / of_nat height < 532 / of_nat width
          then 532 / of_nat width else 532 / of_nat height) = 532 / of_nat (min width height)"
proof (cases "width < height")
  case True
  with assms have "(532 :: rat) / of_nat height < 532 / of_nat width"
    by (simp add: frac_less2)
  with True show ?thesis by (simp add: min_def)
next
  case False
  with assms have "(532 :: rat) / of_nat width \<le> 532 / of_nat height"
    by (simp add: frac_le)
  with False show ?thesis by (simp add: min_def)
qed

text \<open>
  Claim C3, as amended. For a frame of any positive width and height, the resize stage
  of the pipeline of \<open>get_transform\<close> gives a width and a height that are multiples of
  14 and at least 532. The shorter side becomes 532 exactly. Each side is within 7
  pixels of the side scaled by 532 / shorter side: the aspect ratio is kept up to the
  rounding to a multiple of 14, not exactly.
\<close>

theorem resize_stage_size:
  assumes a: "resize_stage get_transform = Some a"
    and pos: "0 < width" "0 < height"
  shows "\<exists>new_width new_height.
     resize_get_size a width height = Some (new_width, new_height) \<and>
     14 dvd new_width \<and> 14 dvd new_height \<and> 532 \<le> new_width \<and> 532 \<le> new_height \<and>
     (width \<le> height \<longrightarrow> new_width = 532) \<and> (height \<le> width \<longrightarrow> new_height = 532) \<and>
     \<bar>of_int new_width - 532 / of_nat (min width height) * of_nat width\<bar> \<le> (7 :: rat) \<and>
     \<bar>of_int new_height - 532 / of_nat (min width height) * of_nat height\<bar> \<le> (7 :: rat)"
proof -
  define scale :: rat where "scale = 532 / of_nat (min width height)"
  let ?w = "constrain_to_multiple_of 14 (scale * of_nat width) 532"
  let ?h = "constrain_to_multiple_of 14 (scale * of_nat height) 532"
  from a have f: "rz_width a = 532" "rz_height a = 532" "rz_ensure_multiple_of a = 14"
    by (auto simp: get_transform_def)
  have gs: "resize_get_size a width height = Some (?w, ?h)"
    using pos by (simp add: resize_get_size_def f Let_def resize_scale scale_def)
  have mpos: "(0 :: rat) < of_nat (min width height)" using pos by simp
  have sw: "scale * of_nat width = 532 * (of_nat width / of_nat (min width height))"
    and sh: "scale * of_nat height = 532 * (of_nat height / of_nat (min width height))"
    by (simp_all add: scale_def)
  have "(1 :: rat) \<le> of_nat width / of_nat (min width height)"
    using mpos by (simp add: pos_le_divide_eq)
  then have xw: "of_nat 532 \<le> scale * of_nat width"
    unfolding sw by simp
  have "(1 :: rat) \<le> of_nat height / of_nat (min width height)"
    using mpos by (simp add: pos_le_divide_eq)
  then have xh: "of_nat 532 \<le> scale * of_nat height"
    unfolding sh by simp
  have m: "0 < (14 :: nat)" and q: "(532 :: nat) = 38 * 14" by simp_all
  note pw = constrain_to_multiple_of_props [OF m q xw]
  note ph = constrain_to_multiple_of_props [OF m q xh]
  have ew: "?w = 532" if "width \<le> height"
  proof -
    from that pos have "scale * of_nat width = of_nat 532"
      by (simp add: scale_def min_def)
    from pw(4) [OF this] show ?thesis by simp
  qed
  have eh: "?h = 532" if "height \<le> width"
  proof -
    from that pos have "scale * of_nat height = of_nat 532"
      by (simp add: scale_def min_def)
    from ph(4) [OF this] show ?thesis by simp
  qed
  from pw(1-3) ph(1-3) ew eh show ?thesis
    unfolding scale_def [symmetric]
    by (intro exI [of _ ?w] exI [of _ ?h]) (simp add: gs)
qed

text \<open>
  A frame of 1920 by 1080 pixels.
\<close>

theorem resize_stage_size_witness:
  "resize_stage get_transform = Some (the (resize_stage get_transform)) \<and>
   (0 :: nat) < 1920 \<and> (0 :: nat) < 1080 \<and>
   (\<exists>new_width new_height.
     resize_get_size (the (resize_stage get_transform)) 1920 1080 = Some (new_width, new_height) \<and>
     14 dvd new_width \<and> 14 dvd new_height \<and> 532 \<le> new_width \<and> 532 \<le> new_height \<and>
     new_height = 532 \<and>
     \<bar>of_int new_width - 532 / of_nat (min 1920 1080) * of_nat 1920\<bar> \<le> (7 :: rat))"
proof -
  have a: "resize_stage get_transform = Some (the (resize_stage get_transform))"
    by (simp add: get_transform_def)
  have w: "(0 :: nat) < 1920" and h: "(0 :: nat) < 1080" by simp_all
  from resize_stage_size [OF a w h] a w h show ?thesis
    by (simp only: min.absorb2) auto
qed

text \<open>
  Claim C3 as the spec states it asks for the aspect ratio to be preserved. A frame of
  640 by 480 pixels becomes 714 by 532: the scaled width 709.33 is not a multiple of 14,
  and 714 : 532 is not 640 : 480.
\<close>

theorem resize_stage_aspect_ratio_counterexample:
  "resize_get_size (the (resize_stage get_transform)) 640 480 = Some (714, 532) \<and>
   (714 :: int) * 480 \<noteq> 532 * 640"
proof -
  have f: "\<lfloor>(152 :: rat) / 3\<rfloor> = 50"
    by (simp add: floor_eq_iff)
  have g: "\<lceil>(152 :: rat) / 3\<rceil> = 51"
    by (simp add: ceiling_eq_iff)
  show ?thesis
    by (simp add: get_transform_def resize_get_size_def constrain_to_multiple_of_def
        round_half_even_def Let_def f g)
qed

end
